theory Spec2Isabelle
  imports Complex_Main "HOL-Library.Sublist" "HOL-Library.Log_Nat"
begin

section \<open>Numbers\<close>

text \<open>
  A number of the language is an IEEE 754 double: not a number, an infinity, or a finite
  value, held as the exact rational it denotes (negative zero is not told apart from
  zero; nothing here divides by it).
\<close>

datatype jsnum = NaN | PosInf | NegInf | Fin rat

text \<open>For \<open>a > 0\<close>, the exponent \<open>e\<close> with \<open>2 ^ e \<le> a < 2 ^ (e + 1)\<close>.\<close>

definition ilog2 :: "rat \<Rightarrow> int" where
  "ilog2 a =
     (if 1 \<le> a then int (floorlog 2 (nat \<lfloor>a\<rfloor>)) - 1
      else - int (floorlog 2 (nat \<lceil>1 / a\<rceil> - 1)))"

text \<open>Rounding to the nearest integer, a tie going to the even one.\<close>

definition roundHalfEven :: "rat \<Rightarrow> int" where
  "roundHalfEven q =
     (let f = \<lfloor>q\<rfloor>; d = q - of_int f
      in if d < 1 / 2 then f else if 1 / 2 < d then f + 1 else if even f then f else f + 1)"

text \<open>
  The double that an exact result rounds to: 53 significant bits, the least exponent
  \<open>-1022\<close> (below it the spacing stays \<open>2 ^ -1074\<close>), nearest value with ties to even,
  and an infinity from \<open>2 ^ 1024\<close> on.
\<close>

definition toDouble :: "rat \<Rightarrow> jsnum" where
  "toDouble x =
     (if x = 0 then Fin 0
      else
        (let a = \<bar>x\<bar>;
             e = max (ilog2 a) (- 1022);
             ulp = 2 powi (e - 52);
             r = of_int (roundHalfEven (a / ulp)) * ulp
         in if 2 powi 1024 \<le> r then (if 0 < x then PosInf else NegInf)
            else Fin (if 0 < x then r else - r)))"

text \<open>\<^verbatim>\<open>a / b\<close> for finite operands.\<close>

definition jsDiv :: "rat \<Rightarrow> rat \<Rightarrow> jsnum" where
  "jsDiv a b =
     (if b = 0 then (if a = 0 then NaN else if 0 < a then PosInf else NegInf)
      else toDouble (a / b))"

text \<open>\<^verbatim>\<open>x * b\<close> for a finite right operand.\<close>

definition jsMul :: "jsnum \<Rightarrow> rat \<Rightarrow> jsnum" where
  "jsMul x b =
     (case x of
        NaN \<Rightarrow> NaN
      | Fin a \<Rightarrow> toDouble (a * b)
      | PosInf \<Rightarrow> (if b = 0 then NaN else if 0 < b then PosInf else NegInf)
      | NegInf \<Rightarrow> (if b = 0 then NaN else if 0 < b then NegInf else PosInf))"

text \<open>\<^verbatim>\<open>x - b\<close> for a finite right operand.\<close>

definition jsSub :: "jsnum \<Rightarrow> rat \<Rightarrow> jsnum" where
  "jsSub x b = (case x of Fin a \<Rightarrow> toDouble (a - b) | y \<Rightarrow> y)"

text \<open>\<^verbatim>\<open>Math.floor(x)\<close>: the floor of a double is a double.\<close>

definition mathFloor :: "jsnum \<Rightarrow> jsnum" where
  "mathFloor x = (case x of Fin a \<Rightarrow> Fin (of_int \<lfloor>a\<rfloor>) | y \<Rightarrow> y)"

text \<open>\<^verbatim>\<open>x % 2 !== 0\<close>: the remainder of a value that is not finite is not a number.\<close>

definition rem2NonZero :: "jsnum \<Rightarrow> bool" where
  "rem2NonZero x =
     (case x of Fin a \<Rightarrow> a \<noteq> of_int \<lfloor>a\<rfloor> \<or> \<lfloor>a\<rfloor> mod 2 \<noteq> 0 | y \<Rightarrow> True)"

text \<open>\<^verbatim>\<open>x < y\<close>.\<close>

fun jsLess :: "jsnum \<Rightarrow> jsnum \<Rightarrow> bool" where
  "jsLess (Fin a) (Fin b) = (a < b)"
| "jsLess NaN y = False"
| "jsLess x NaN = False"
| "jsLess PosInf y = False"
| "jsLess x PosInf = True"
| "jsLess NegInf (Fin b) = True"
| "jsLess NegInf NegInf = False"
| "jsLess (Fin a) NegInf = False"

section \<open>Strings, thrown values and the observable world\<close>

text \<open>
  A string is held as the bytes of its UTF-8 form; the literals of the source are ASCII.
  \<^verbatim>\<open>s.includes(t)\<close>: \<open>t\<close> occurs in \<open>s\<close> as a contiguous run (the comparison is
  case sensitive).
\<close>

fun str_includes :: "string \<Rightarrow> string \<Rightarrow> bool" where
  "str_includes [] t = (t = [])"
| "str_includes (c # s) t = (prefix t (c # s) \<or> str_includes s t)"

text \<open>
  A thrown value is modelled as an error object with an optional string \<open>message\<close>
  (\<^verbatim>\<open>new Error(m)\<close> is \<open>Error (Some m)\<close>; a thrown value without a message is
  \<open>Error None\<close>).  \<^verbatim>\<open>error?.message || ""\<close> reads it; the empty message is
  falsy and reads as the empty string too.
\<close>

datatype err = Error (message: "string option")

definition messageOf :: "err \<Rightarrow> string" where
  "messageOf e = (case message e of None \<Rightarrow> [] | Some m \<Rightarrow> m)"

text \<open>The classification written inline in \<^verbatim>\<open>withRetry\<close> (lines 23 to 26).\<close>

definition isRetryable :: "string \<Rightarrow> bool" where
  "isRetryable errorMsg \<longleftrightarrow>
     str_includes errorMsg ''503'' \<or>
     str_includes errorMsg ''Deadline expired'' \<or>
     str_includes errorMsg ''UNAVAILABLE'' \<or>
     str_includes errorMsg ''429''"

text \<open>The classification written inline in the catch block of \<^verbatim>\<open>pollForVideo\<close> (line 154).\<close>

definition pollRetryable :: "string \<Rightarrow> bool" where
  "pollRetryable msg \<longleftrightarrow>
     str_includes msg ''503'' \<or>
     str_includes msg ''Deadline expired'' \<or>
     str_includes msg ''UNAVAILABLE''"

text \<open>
  The handle of the server-side video job: \<^verbatim>\<open>op.done\<close>, \<^verbatim>\<open>op.error\<close> and
  \<^verbatim>\<open>op.response?.generatedVideos?.[0]?.video?.uri\<close>, with an opaque reference.
\<close>

record operation =
  op_name :: string
  op_done :: bool
  op_error :: "err option"
  op_uri :: "string option"

text \<open>Content parts of an outgoing image request, in the order of the \<^verbatim>\<open>parts\<close> array.\<close>

datatype part =
    InlineData (inline_data: "string option") (inline_mimeType: string)
  | TextPart string

datatype contents = Prompt string | Parts "part list"

datatype config =
    SuggestConfig (temperature: jsnum) (maxOutputTokens: nat)
  | ImageConfig (aspectRatio: string) (imageSize: string)

record videoRequest =
  vr_model :: string
  vr_prompt :: string
  vr_imageBytes :: string
  vr_imageMime :: string
  vr_numberOfVideos :: nat
  vr_resolution :: string
  vr_aspectRatio :: string
  vr_lastFrameBytes :: string
  vr_lastFrameMime :: string

datatype request =
    GenerateContent string contents config
  | GenerateVideos videoRequest
  | GetVideosOperation operation
  | Fetch string

text \<open>
  What a run does to the outside: the waits it makes and the network calls it issues,
  in order, and the wall clock (\<^verbatim>\<open>Date.now()\<close>, in milliseconds).
\<close>

datatype event = Sleep nat | Call request

record world =
  now :: nat
  trace :: "event list"

fun callsOf :: "event list \<Rightarrow> request list" where
  "callsOf [] = []"
| "callsOf (Call r # t) = r # callsOf t"
| "callsOf (Sleep ms # t) = callsOf t"

fun sleeps :: "event list \<Rightarrow> nat list" where
  "sleeps [] = []"
| "sleeps (Call r # t) = sleeps t"
| "sleeps (Sleep ms # t) = ms # sleeps t"

definition netCalls :: "event list \<Rightarrow> nat" where
  "netCalls t = length (callsOf t)"

text \<open>\<^verbatim>\<open>sleep(ms)\<close>: the timer is taken as exact, and the wait is recorded.\<close>

definition sleep :: "nat \<Rightarrow> world \<Rightarrow> world" where
  "sleep ms w = w\<lparr>now := now w + ms, trace := trace w @ [Sleep ms]\<rparr>"

text \<open>
  A remote endpoint is a script: the \<open>k\<close>-th network call of the session (counting from
  \<open>0\<close>, over all endpoints), if made to it, takes \<open>fst (script k)\<close> milliseconds and
  settles with \<open>snd (script k)\<close>, \<open>Inl\<close> for a rejection.  Every behaviour of the service
  over one run is such a script.
\<close>

type_synonym 'a script = "nat \<Rightarrow> nat \<times> (err + 'a)"

definition invoke :: "request \<Rightarrow> 'a script \<Rightarrow> world \<Rightarrow> (err + 'a) \<times> world" where
  "invoke req script w =
     (snd (script (netCalls (trace w))),
      w\<lparr>now := now w + fst (script (netCalls (trace w))), trace := trace w @ [Call req]\<rparr>)"

section \<open>The backoff retrier\<close>

fun withRetry ::
  "(world \<Rightarrow> (err + 'a) \<times> world) \<Rightarrow> nat \<Rightarrow> nat \<Rightarrow> world \<Rightarrow> (err + 'a) \<times> world" where
  "withRetry fn retries baseDelay w =
     (case fn w of
        (Inr v, w1) \<Rightarrow> (Inr v, w1)
      | (Inl error, w1) \<Rightarrow>
          if retries > 0 \<and> isRetryable (messageOf error)
          then withRetry fn (retries - 1) (baseDelay * 2) (sleep baseDelay w1)
          else (Inl error, w1))"

declare withRetry.simps [simp del]

text \<open>The default parameters \<^verbatim>\<open>retries = 3, baseDelay = 3000\<close>.\<close>

definition withRetryDefault :: "(world \<Rightarrow> (err + 'a) \<times> world) \<Rightarrow> world \<Rightarrow> (err + 'a) \<times> world" where
  "withRetryDefault fn w = withRetry fn 3 3000 w"

section \<open>The operation poller\<close>

definition MAX_WAIT_TIME :: nat where
  "MAX_WAIT_TIME = 300000"

definition timeoutError :: err where
  "timeoutError = Error (Some ''Video generation timed out. Please try again.'')"

text \<open>
  The \<^verbatim>\<open>while (!op.done)\<close> loop of \<^verbatim>\<open>pollForVideo\<close>, one unfolding per iteration.
  No clock is read between the 10 second wait and the settling of the status check, so
  the script's duration for a status check stands for everything that passes there
  beyond the nominal wait.
\<close>

function pollLoop ::
  "operation script \<Rightarrow> nat \<Rightarrow> operation \<Rightarrow> world \<Rightarrow> (err + operation) \<times> world" where
  "pollLoop getVideosOperation startTime opn w =
     (if op_done opn then (Inr opn, w)
      else if now w - startTime > MAX_WAIT_TIME then (Inl timeoutError, w)
      else (case invoke (GetVideosOperation opn) getVideosOperation (sleep 10000 w) of
              (Inr op', w') \<Rightarrow> pollLoop getVideosOperation startTime op' w'
            | (Inl e, w') \<Rightarrow>
                if pollRetryable (messageOf e)
                then pollLoop getVideosOperation startTime opn w'
                else (Inl e, w')))"
  by pat_completeness auto
termination
  by (relation "measure (\<lambda>(g, startTime, opn, w). startTime + MAX_WAIT_TIME + 1 - now w)")
     (auto simp: invoke_def sleep_def MAX_WAIT_TIME_def)

declare pollLoop.simps [simp del]

definition pollForVideo :: "operation script \<Rightarrow> operation \<Rightarrow> world \<Rightarrow> (err + operation) \<times> world" where
  "pollForVideo getVideosOperation operation w = pollLoop getVideosOperation (now w) operation w"

section \<open>The generation client\<close>

subsection \<open>Helpers of \<^verbatim>\<open>utils\<close> and of the string library\<close>

text \<open>
  The white space and the line terminators of the language, each as the bytes of its
  UTF-8 form: tab, line feed, vertical tab, form feed, carriage return, space, U+00A0,
  U+1680, U+2000 to U+200A, U+2028, U+2029, U+202F, U+205F, U+3000 and U+FEFF.
\<close>

definition whiteSpace :: "string list" where
  "whiteSpace =
    [[CHR 0x09], [CHR 0x0A], [CHR 0x0B], [CHR 0x0C], [CHR 0x0D], [CHR 0x20],
     [CHR 0xC2, CHR 0xA0],
     [CHR 0xE1, CHR 0x9A, CHR 0x80],
     [CHR 0xE2, CHR 0x80, CHR 0x80], [CHR 0xE2, CHR 0x80, CHR 0x81],
     [CHR 0xE2, CHR 0x80, CHR 0x82], [CHR 0xE2, CHR 0x80, CHR 0x83],
     [CHR 0xE2, CHR 0x80, CHR 0x84], [CHR 0xE2, CHR 0x80, CHR 0x85],
     [CHR 0xE2, CHR 0x80, CHR 0x86], [CHR 0xE2, CHR 0x80, CHR 0x87],
     [CHR 0xE2, CHR 0x80, CHR 0x88], [CHR 0xE2, CHR 0x80, CHR 0x89],
     [CHR 0xE2, CHR 0x80, CHR 0x8A],
     [CHR 0xE2, CHR 0x80, CHR 0xA8], [CHR 0xE2, CHR 0x80, CHR 0xA9],
     [CHR 0xE2, CHR 0x80, CHR 0xAF],
     [CHR 0xE2, CHR 0x81, CHR 0x9F],
     [CHR 0xE3, CHR 0x80, CHR 0x80],
     [CHR 0xEF, CHR 0xBB, CHR 0xBF]]"

text \<open>The length of the first of the given byte runs that the string starts with, or 0.\<close>

fun leading :: "string list \<Rightarrow> string \<Rightarrow> nat" where
  "leading [] s = 0"
| "leading (ws # wss) s = (if prefix ws s then length ws else leading wss s)"

fun stripLeading :: "string list \<Rightarrow> string \<Rightarrow> string" where
  "stripLeading wss [] = []"
| "stripLeading wss (c # s) =
     (case leading wss (c # s) of 0 \<Rightarrow> c # s | Suc n \<Rightarrow> stripLeading wss (drop n s))"

text \<open>
  \<^verbatim>\<open>trim()\<close>: the white space is stripped from the start, and from the end by
  stripping the reversed runs from the reversed string.
\<close>

definition trim :: "string \<Rightarrow> string" where
  "trim s = rev (stripLeading (map rev whiteSpace) (rev (stripLeading whiteSpace s)))"

text \<open>\<^verbatim>\<open>s.split(sep)\<close> for a non-empty separator: the pieces between the occurrences.\<close>

fun splitAcc :: "string \<Rightarrow> string \<Rightarrow> string \<Rightarrow> string list" where
  "splitAcc sep acc [] = [rev acc]"
| "splitAcc sep acc (c # s) =
     (if sep \<noteq> [] \<and> prefix sep (c # s)
      then rev acc # splitAcc sep [] (drop (length sep) (c # s))
      else splitAcc sep (c # acc) s)"

definition split :: "string \<Rightarrow> string \<Rightarrow> string list" where
  "split s sep = splitAcc sep [] s"

text \<open>\<^verbatim>\<open>s.replace(pat, rep)\<close> with a string pattern: the first occurrence only.\<close>

fun replace :: "string \<Rightarrow> string \<Rightarrow> string \<Rightarrow> string" where
  "replace [] pat rep = (if pat = [] then rep else [])"
| "replace (c # s) pat rep =
     (if prefix pat (c # s) then rep @ drop (length pat) (c # s)
      else c # replace s pat rep)"

text \<open>
  \<^verbatim>\<open>data.replace(/^data:.*,/, '')\<close>: at the start of the string, \<^verbatim>\<open>data:\<close> and
  then the longest run without a line terminator (line feed, carriage return, U+2028,
  U+2029) that ends in a comma.
\<close>

fun firstLine :: "string \<Rightarrow> string" where
  "firstLine [] = []"
| "firstLine (c # s) =
     (if c = CHR 0x0A \<or> c = CHR 0x0D \<or>
         prefix [CHR 0xE2, CHR 0x80, CHR 0xA8] (c # s) \<or>
         prefix [CHR 0xE2, CHR 0x80, CHR 0xA9] (c # s)
      then [] else c # firstLine s)"

definition cleanBase64 :: "string \<Rightarrow> string" where
  "cleanBase64 data =
     (if prefix ''data:'' data then
        let rest = drop 5 data;
            line = firstLine rest
        in if CHR '','' \<in> set line
           then drop (length line - length (takeWhile (\<lambda>c. c \<noteq> CHR '','') (rev line))) rest
           else data
      else data)"

definition styles :: "string list" where
  "styles =
    [''formed by fluffy white clouds in a deep blue summer sky'',
     ''written in glowing constellations against a dark nebula galaxy'',
     ''arranged using colorful autumn leaves on wet green grass'',
     ''reflected in cyberpunk neon puddles on a rainy street'',
     ''drawn with latte art foam in a ceramic coffee cup'',
     ''glowing as ancient magical runes carved into a dark cave wall'',
     ''displayed on a futuristic translucent holographic interface'',
     ''sculpted from melting surrealist gold in a desert landscape'',
     ''arranged with intricate mechanical gears and steampunk machinery'',
     ''formed by bioluminescent jellyfish in the deep ocean'',
     ''composed of vibrant colorful smoke swirling in a dark room'',
     ''carved into the bark of an ancient mossy oak tree'',
     ''made of sparkling diamonds scattered on black velvet'']"

text \<open>
  \<^verbatim>\<open>styles[Math.floor(Math.random() * styles.length)]\<close>, for the double \<open>r\<close> that
  \<^verbatim>\<open>Math.random()\<close> returns.  An index outside the array reads \<^verbatim>\<open>undefined\<close>,
  which is \<open>None\<close>.
\<close>

definition getRandomStyle :: "rat \<Rightarrow> string option" where
  "getRandomStyle r =
     (case mathFloor (jsMul (Fin r) (of_nat (length styles))) of
        Fin i \<Rightarrow>
          if 0 \<le> i \<and> i < of_nat (length styles) then Some (styles ! nat \<lfloor>i\<rfloor>) else None
      | y \<Rightarrow> None)"

subsection \<open>The remote service and the browser, as parameters\<close>

text \<open>A part of a returned candidate: \<^verbatim>\<open>part.inlineData\<close> with its \<^verbatim>\<open>data\<close> and optional \<^verbatim>\<open>mimeType\<close>.\<close>

datatype rpart = RPart (inlineData: "(string \<times> string option) option")

text \<open>\<^verbatim>\<open>response.text\<close> and \<^verbatim>\<open>response.candidates?.[0]?.content?.parts\<close>.\<close>

record gcResponse =
  resp_text :: "string option"
  resp_parts :: "rpart list option"

text \<open>\<^verbatim>\<open>videoResponse.ok\<close>, \<^verbatim>\<open>videoResponse.statusText\<close> and what \<^verbatim>\<open>videoResponse.blob()\<close> settles with.\<close>

record fetchResponse =
  resp_ok :: bool
  resp_statusText :: string
  resp_blob :: "err + string"

text \<open>
  The four endpoints, the value of \<^verbatim>\<open>Math.random()\<close>, \<^verbatim>\<open>process.env.API_KEY\<close>, and the
  browser classes used: \<open>newURL uri key\<close> is \<^verbatim>\<open>new URL(uri)\<close> with the key appended, as
  a string, or the error the constructor throws; \<open>toDataURL width height\<close> is the data URL
  of the black canvas; \<open>createObjectURL\<close> names a blob.
\<close>

record remote =
  generateContent :: "gcResponse script"
  generateVideos :: "operation script"
  getVideosOperation :: "operation script"
  fetch :: "fetchResponse script"
  mathRandom :: rat
  API_KEY :: "string option"
  newURL :: "string \<Rightarrow> string \<Rightarrow> err + string"
  toDataURL :: "nat \<Rightarrow> nat \<Rightarrow> string"
  createObjectURL :: "string \<Rightarrow> string"

definition createBlankImage :: "remote \<Rightarrow> nat \<Rightarrow> nat \<Rightarrow> string" where
  "createBlankImage env width height = cleanBase64 (toDataURL env width height)"

subsection \<open>Style suggestion\<close>

text \<open>
  The \<^verbatim>\<open>try\<close> block is the call and the reading of its text; the \<^verbatim>\<open>catch\<close> block turns
  every rejection into the local choice.  The result keeps the sum type of a promise, so
  that a propagated error would be an \<open>Inl\<close>.
\<close>

definition generateStyleSuggestion ::
  "remote \<Rightarrow> string \<Rightarrow> world \<Rightarrow> (err + string option) \<times> world" where
  "generateStyleSuggestion ai text w =
     (case invoke
             (GenerateContent ''gemini-3-flash-preview''
                (Prompt (''Cinematic style for \"'' @ text @
                   ''\" in 10 words: material, lighting, environment. Output description only.''))
                (SuggestConfig (toDouble (9 / 10)) 50))
             (generateContent ai) w of
        (Inr response, w1) \<Rightarrow>
          (Inr (case resp_text response of
                  None \<Rightarrow> getRandomStyle (mathRandom ai)
                | Some t \<Rightarrow> if trim t \<noteq> [] then Some (trim t) else getRandomStyle (mathRandom ai)),
           w1)
      | (Inl error, w1) \<Rightarrow> (Inr (getRandomStyle (mathRandom ai)), w1))"

subsection \<open>Image generation\<close>

definition typoInstruction :: "string option \<Rightarrow> string" where
  "typoInstruction typographyPrompt =
     (case typographyPrompt of
        Some t \<Rightarrow>
          if t \<noteq> [] \<and> length (trim t) > 0 then t
          else ''High-quality, creative typography that perfectly matches the visual environment. Legible and artistic.''
      | None \<Rightarrow>
          ''High-quality, creative typography that perfectly matches the visual environment. Legible and artistic.'')"

text \<open>
  The \<^verbatim>\<open>parts\<close> array as the closure fills it by \<^verbatim>\<open>push\<close>, first element first.  A reference image
  is present when the string is truthy (given and not empty).  A split always has a
  first piece; the second one is \<^verbatim>\<open>undefined\<close> when the separator is missing.
\<close>

definition buildParts :: "string \<Rightarrow> string \<Rightarrow> string option \<Rightarrow> string option \<Rightarrow> part list" where
  "buildParts text style typographyPrompt referenceImage =
     (case referenceImage of
        Some ref \<Rightarrow>
          if ref \<noteq> [] then
            (let pieces = split ref '';base64,'';
                 mimeTypePart = hd pieces;
                 data = (if length pieces > 1 then Some (pieces ! 1) else None)
             in [InlineData data (replace mimeTypePart ''data:'' []),
                 TextPart
                   (''Analyze the visual style, color palette, lighting, and textures of this reference image. \<newline>        Create a NEW high-resolution cinematic image featuring the text \"''
                    @ text @
                    ''\" written in the center. \<newline>        Typography Instruction: ''
                    @ typoInstruction typographyPrompt @
                    ''.\<newline>        The text should look like it perfectly belongs in the world of the reference image.\<newline>        Additional style instructions: ''
                    @ style @ ''.'')])
          else
            [TextPart
               (''A hyper-realistic, cinematic, high-resolution image featuring the text \"''
                @ text @ ''\". \<newline>        Typography Instruction: ''
                @ typoInstruction typographyPrompt @ ''. \<newline>        Visual Style: ''
                @ style @
                ''. \<newline>        The typography must be legible, artistic, and centered. Lighting should be dramatic and atmospheric. 8k resolution, detailed texture.'')]
      | None \<Rightarrow>
          [TextPart
             (''A hyper-realistic, cinematic, high-resolution image featuring the text \"''
              @ text @ ''\". \<newline>        Typography Instruction: ''
              @ typoInstruction typographyPrompt @ ''. \<newline>        Visual Style: ''
              @ style @
              ''. \<newline>        The typography must be legible, artistic, and centered. Lighting should be dramatic and atmospheric. 8k resolution, detailed texture.'')])"

text \<open>The scan of the returned parts for the first one with inline data.\<close>

fun firstInline :: "rpart list \<Rightarrow> err + (string \<times> string)" where
  "firstInline [] = Inl (Error (Some ''No image generated''))"
| "firstInline (p # ps) =
     (case inlineData p of
        Some (d, m) \<Rightarrow>
          Inr (d, case m of None \<Rightarrow> ''image/png'' | Some t \<Rightarrow> if t \<noteq> [] then t else ''image/png'')
      | None \<Rightarrow> firstInline ps)"

definition imageRequest :: "string \<Rightarrow> string \<Rightarrow> string option \<Rightarrow> string option \<Rightarrow> request" where
  "imageRequest text style typographyPrompt referenceImage =
     GenerateContent ''gemini-3-pro-image-preview''
       (Parts (buildParts text style typographyPrompt referenceImage))
       (ImageConfig ''16:9'' ''1K'')"

text \<open>The closure passed to the retrier: one attempt.\<close>

definition imageAttempt ::
  "remote \<Rightarrow> string \<Rightarrow> string \<Rightarrow> string option \<Rightarrow> string option \<Rightarrow> world
     \<Rightarrow> (err + (string \<times> string)) \<times> world" where
  "imageAttempt ai text style typographyPrompt referenceImage w =
     (case invoke (imageRequest text style typographyPrompt referenceImage) (generateContent ai) w of
        (Inl e, w1) \<Rightarrow> (Inl e, w1)
      | (Inr response, w1) \<Rightarrow>
          (firstInline (case resp_parts response of None \<Rightarrow> [] | Some ps \<Rightarrow> ps), w1))"

definition generateTextImage ::
  "remote \<Rightarrow> string \<Rightarrow> string \<Rightarrow> string option \<Rightarrow> string option \<Rightarrow> world
     \<Rightarrow> (err + (string \<times> string)) \<times> world" where
  "generateTextImage ai text style typographyPrompt referenceImage w =
     withRetryDefault (imageAttempt ai text style typographyPrompt referenceImage) w"

section \<open>The asset fetcher and video generation\<close>

text \<open>The closure of \<^verbatim>\<open>fetchVideoBlob\<close>: one attempt of the download.\<close>

definition fetchAttempt :: "remote \<Rightarrow> string \<Rightarrow> world \<Rightarrow> (err + string) \<times> world" where
  "fetchAttempt env uri w =
     (case newURL env uri (case API_KEY env of None \<Rightarrow> [] | Some k \<Rightarrow> k) of
        Inl e \<Rightarrow> (Inl e, w)
      | Inr url \<Rightarrow>
          (case invoke (Fetch url) (fetch env) w of
             (Inl e, w1) \<Rightarrow> (Inl e, w1)
           | (Inr videoResponse, w1) \<Rightarrow>
               if \<not> resp_ok videoResponse
               then (Inl (Error (Some (''Failed to fetch video content: '' @ resp_statusText videoResponse))), w1)
               else (case resp_blob videoResponse of
                       Inl e \<Rightarrow> (Inl e, w1)
                     | Inr blob \<Rightarrow> (Inr (createObjectURL env blob), w1))))"

definition fetchVideoBlob :: "remote \<Rightarrow> string \<Rightarrow> world \<Rightarrow> (err + string) \<times> world" where
  "fetchVideoBlob env uri w = withRetry (fetchAttempt env uri) 2 2000 w"

definition videoRequestOf :: "remote \<Rightarrow> string \<Rightarrow> string \<Rightarrow> string \<Rightarrow> string \<Rightarrow> videoRequest" where
  "videoRequestOf env text imageBase64 imageMimeType promptStyle =
     \<lparr>vr_model = ''veo-3.1-fast-generate-preview'',
      vr_prompt = ''Cinematic transition. The text \"'' @ text @
        ''\" gradually forms and materializes from darkness. '' @ promptStyle @
        ''. High quality, 8k, smooth motion.'',
      vr_imageBytes = createBlankImage env 1280 720,
      vr_imageMime = ''image/png'',
      vr_numberOfVideos = 1,
      vr_resolution = ''720p'',
      vr_aspectRatio = ''16:9'',
      vr_lastFrameBytes = cleanBase64 imageBase64,
      vr_lastFrameMime = imageMimeType\<rparr>"

text \<open>
  \<^verbatim>\<open>getAI()\<close> only builds a client object and is not in the model.  The empty string
  is the falsy value of the parameter's type.
\<close>

definition generateTextVideo ::
  "remote \<Rightarrow> string \<Rightarrow> string \<Rightarrow> string \<Rightarrow> string \<Rightarrow> world \<Rightarrow> (err + string) \<times> world" where
  "generateTextVideo env text imageBase64 imageMimeType promptStyle w =
     (if imageBase64 = [] then (Inl (Error (Some ''Image generation failed, cannot generate video.'')), w)
      else
        (case withRetryDefault
                (invoke (GenerateVideos (videoRequestOf env text imageBase64 imageMimeType promptStyle))
                   (generateVideos env)) w of
           (Inl e, w1) \<Rightarrow> (Inl e, w1)
         | (Inr operation, w1) \<Rightarrow>
             (case pollForVideo (getVideosOperation env) operation w1 of
                (Inl e, w2) \<Rightarrow> (Inl e, w2)
              | (Inr opn, w2) \<Rightarrow>
                  (case op_error opn of
                     None \<Rightarrow>
                       (case op_uri opn of
                          Some uri \<Rightarrow>
                            if uri \<noteq> [] then fetchVideoBlob env uri w2
                            else (Inl (Error (Some ''Unable to generate video.'')), w2)
                        | None \<Rightarrow> (Inl (Error (Some ''Unable to generate video.'')), w2))
                   | Some error \<Rightarrow>
                       (Inl (Error (Some
                          (if messageOf error \<noteq> [] then messageOf error
                           else ''The video generation service encountered an internal error.''))),
                        w2)))))"

section \<open>The frame transcoder\<close>

text \<open>One \<^verbatim>\<open>writeFrame\<close> call: the indexed pixels, the size, the palette and the delay.\<close>

record frame =
  fr_index :: "nat list"
  fr_width :: nat
  fr_height :: jsnum
  fr_palette :: "nat list list"
  fr_delay :: jsnum

text \<open>
  The video element, the canvas and the quantiser, as parameters: whether the encoder
  loaded, whether the metadata loads (else the error event fires), the reported duration
  and size, whether a 2d context is given, the pixel data read back after the \<open>i\<close>-th
  seek (or the error thrown while drawing and reading), the two quantisation functions,
  and the bytes that the encoder writes for one frame.
\<close>

record video =
  gifLoaded :: bool
  loads :: bool
  duration :: jsnum
  videoWidth :: nat
  videoHeight :: nat
  hasContext :: bool
  capture :: "nat \<Rightarrow> jsnum \<Rightarrow> nat \<Rightarrow> jsnum \<Rightarrow> err + nat list"
  quantize :: "nat list \<Rightarrow> nat \<Rightarrow> nat list list"
  applyPalette :: "nat list \<Rightarrow> nat list list \<Rightarrow> nat list"
  frameBytes :: "frame \<Rightarrow> string"

text \<open>
  What the run does, in order: the seeks (\<^verbatim>\<open>video.currentTime = time\<close>), the frames
  handed to the encoder, and the encoder's byte stream.
\<close>

record gstate =
  seeks :: "jsnum list"
  written :: "frame list"
  stream :: string

text \<open>
  Modelled from the spec: the encoder (\<^verbatim>\<open>GIFEncoder\<close> of the imported \<^verbatim>\<open>gifenc\<close>
  library, which is not among the sources).  It is the accumulator that owns a growing
  buffer, is fed one frame at a time and is finalised once.  Its output is the standard
  animated-image container: the signature \<^verbatim>\<open>GIF89a\<close> goes out with the first frame, and
  finalising appends the trailer byte \<open>0x3B\<close>.  What a frame adds in between is the
  parameter \<open>frameBytes\<close>.
\<close>

definition GIFEncoder :: gstate where
  "GIFEncoder = \<lparr>seeks = [], written = [], stream = []\<rparr>"

definition writeFrame :: "video \<Rightarrow> frame \<Rightarrow> gstate \<Rightarrow> gstate" where
  "writeFrame v fr g =
     g\<lparr>written := written g @ [fr],
       stream := stream g @ (if written g = [] then ''GIF89a'' else []) @ frameBytes v fr\<rparr>"

definition finish :: "gstate \<Rightarrow> gstate" where
  "finish g = g\<lparr>stream := stream g @ [CHR 0x3B]\<rparr>"

record blob =
  blob_bytes :: string
  blob_type :: string

definition fps :: nat where
  "fps = 10"

text \<open>
  The \<^verbatim>\<open>for\<close> loop over the sample indices.  It stops at the first error thrown, and
  it need not stop at all: with an infinite frame count it runs for as long as the frames
  read back, and then the result is \<open>None\<close>.  The index is an exact integer.
\<close>

partial_function (option) gifLoop ::
  "video \<Rightarrow> nat \<Rightarrow> jsnum \<Rightarrow> jsnum \<Rightarrow> nat \<Rightarrow> gstate \<Rightarrow> ((err + unit) \<times> gstate) option" where
  "gifLoop v width height totalFrames i g =
     (if jsLess (Fin (of_nat i)) totalFrames then
        (let time = jsDiv (of_nat i) (of_nat fps);
             g1 = g\<lparr>seeks := seeks g @ [time]\<rparr>
         in case capture v i time width height of
              Inl e \<Rightarrow> Some (Inl e, g1)
            | Inr data \<Rightarrow>
                (let palette = quantize v data 256;
                     index = applyPalette v data palette
                 in gifLoop v width height totalFrames (i + 1)
                      (writeFrame v
                         \<lparr>fr_index = index, fr_width = width, fr_height = height,
                          fr_palette = palette, fr_delay = jsDiv 1000 (of_nat fps)\<rparr> g1)))
      else Some (Inr (), g))"

text \<open>\<^verbatim>\<open>video.duration || 5\<close>: \<^verbatim>\<open>NaN\<close> and \<open>0\<close> are falsy.\<close>

definition durationOr5 :: "jsnum \<Rightarrow> jsnum" where
  "durationOr5 d = (case d of NaN \<Rightarrow> Fin 5 | Fin x \<Rightarrow> if x = 0 then Fin 5 else Fin x | y \<Rightarrow> y)"

text \<open>\<^verbatim>\<open>Math.floor(duration * fps)\<close>.\<close>

definition totalFramesOf :: "video \<Rightarrow> jsnum" where
  "totalFramesOf v = mathFloor (jsMul (durationOr5 (duration v)) (of_nat fps))"

text \<open>
  \<^verbatim>\<open>Math.floor((video.videoHeight / video.videoWidth) * width)\<close>, lowered by one when
  its remainder by 2 is not zero.
\<close>

definition heightOf :: "video \<Rightarrow> jsnum" where
  "heightOf v =
     (let height = mathFloor (jsMul (jsDiv (of_nat (videoHeight v)) (of_nat (videoWidth v))) 400)
      in if rem2NonZero height then jsSub height 1 else height)"

text \<open>
  The promise of \<^verbatim>\<open>createGifFromVideo\<close>: \<open>None\<close> when it never settles, else what
  it settles with (\<open>Inl\<close> for a rejection) and the state of the run.
\<close>

definition createGifFromVideo :: "video \<Rightarrow> ((err + blob) \<times> gstate) option" where
  "createGifFromVideo v =
     (if \<not> gifLoaded v
      then Some (Inl (Error (Some ''GIF library failed to load correctly. Please refresh the page.'')),
                 GIFEncoder)
      else if \<not> loads v then Some (Inl (Error (Some ''Video load failed'')), GIFEncoder)
      else if \<not> hasContext v then Some (Inl (Error (Some ''Could not get canvas context'')), GIFEncoder)
      else (case gifLoop v 400 (heightOf v) (totalFramesOf v) 0 GIFEncoder of
              None \<Rightarrow> None
            | Some (Inl e, g) \<Rightarrow> Some (Inl e, g)
            | Some (Inr u, g) \<Rightarrow>
                Some (Inr \<lparr>blob_bytes = stream (finish g), blob_type = ''image/gif''\<rparr>, finish g)))"

section \<open>Concrete runs\<close>

definition w0 :: world where
  "w0 = \<lparr>now = 0, trace = []\<rparr>"

definition pendingOp :: operation where
  "pendingOp = \<lparr>op_name = ''operations/1'', op_done = False, op_error = None, op_uri = None\<rparr>"

definition doneOp :: operation where
  "doneOp = \<lparr>op_name = ''operations/1'', op_done = True, op_error = None,
              op_uri = Some ''https://example.com/video.mp4''\<rparr>"

definition failedOp :: operation where
  "failedOp = \<lparr>op_name = ''operations/1'', op_done = True,
                op_error = Some (Error (Some ''quota'')), op_uri = None\<rparr>"

text \<open>A status check that takes 400 seconds and then reports completion.\<close>

definition slowCheck :: "operation script" where
  "slowCheck = (\<lambda>k. (400000, Inr doneOp))"

text \<open>An endpoint that answers every call at once with a rate-limit rejection.\<close>

definition rateLimitError :: err where
  "rateLimitError = Error (Some ''429 Too Many Requests'')"

definition rateLimited :: "'a script" where
  "rateLimited = (\<lambda>k. (0, Inl rateLimitError))"

text \<open>An endpoint that rejects every call with a message no classification matches.\<close>

definition notFoundError :: err where
  "notFoundError = Error (Some ''Requested entity was not found.'')"

definition notFound :: "'a script" where
  "notFound = (\<lambda>k. (0, Inl notFoundError))"

text \<open>
  Status checks that take 2 seconds each: the first is rejected as unavailable, every
  later one with the unclassified message.
\<close>

definition unavailableError :: err where
  "unavailableError = Error (Some ''503 Service Unavailable'')"

definition flakyCheck :: "operation script" where
  "flakyCheck = (\<lambda>k. if k = 0 then (2000, Inl unavailableError) else (2000, Inl notFoundError))"

text \<open>
  A session in which every generation call is rejected with the unclassified message,
  the download answers with HTTP status 404, and \<^verbatim>\<open>Math.random()\<close> gives \<open>1/2\<close>.
\<close>

definition notFoundResponse :: fetchResponse where
  "notFoundResponse = \<lparr>resp_ok = False, resp_statusText = ''Not Found'', resp_blob = Inr []\<rparr>"

definition demoRemote :: remote where
  "demoRemote =
     \<lparr>generateContent = notFound,
      generateVideos = notFound,
      getVideosOperation = notFound,
      fetch = (\<lambda>k. (0, Inr notFoundResponse)),
      mathRandom = 1 / 2,
      API_KEY = Some ''k'',
      newURL = (\<lambda>uri key. Inr (uri @ ''?key='' @ key)),
      toDataURL = (\<lambda>width height. ''data:image/png;base64,iVBORw0KGgo=''),
      createObjectURL = (\<lambda>blob. ''blob:1'')\<rparr>"

text \<open>The same session with a download that answers 503 twice and then delivers.\<close>

definition unavailableResponse :: fetchResponse where
  "unavailableResponse = \<lparr>resp_ok = False, resp_statusText = ''503 Service Unavailable'', resp_blob = Inr []\<rparr>"

definition okResponse :: fetchResponse where
  "okResponse = \<lparr>resp_ok = True, resp_statusText = ''OK'', resp_blob = Inr ''mp4''\<rparr>"

definition busyRemote :: remote where
  "busyRemote = demoRemote\<lparr>fetch := (\<lambda>k. if k < 2 then (0, Inr unavailableResponse) else (0, Inr okResponse))\<rparr>"

text \<open>
  A session whose style call answers with a no-break space and a space, and
  \<^verbatim>\<open>Math.random()\<close> gives \<open>1/2\<close>.
\<close>

definition blankRemote :: remote where
  "blankRemote =
     demoRemote\<lparr>generateContent :=
       (\<lambda>k. (0, Inr \<lparr>resp_text = Some [CHR 0xC2, CHR 0xA0, CHR 0x20], resp_parts = None\<rparr>))\<rparr>"

text \<open>
  A loaded video of 640 by 360 pixels whose frames all read back as one black pixel
  quadruple; the reported duration is a parameter.
\<close>

definition demoVideo :: "jsnum \<Rightarrow> video" where
  "demoVideo d =
     \<lparr>gifLoaded = True, loads = True, duration = d, videoWidth = 640, videoHeight = 360,
      hasContext = True,
      capture = (\<lambda>i time width height. Inr [0, 0, 0, 255]),
      quantize = (\<lambda>data n. [[0, 0, 0]]),
      applyPalette = (\<lambda>data palette. [0]),
      frameBytes = (\<lambda>fr. '','')\<rparr>"

section \<open>Facts about numbers\<close>

lemma ilog2_bounds:
  assumes "0 < a"
  shows "2 powi (ilog2 a) \<le> a \<and> a < 2 powi (ilog2 a + 1)"
proof (cases "1 \<le> a")
  case True
  define n where "n = nat \<lfloor>a\<rfloor>"
  define k where "k = floorlog 2 n"
  have n: "0 < n" using True by (simp add: n_def)
  from floorlog_bounds[OF n, of 2] have b: "2 ^ (k - 1) \<le> n" "n < 2 ^ k"
    by (simp_all add: k_def)
  have k: "1 \<le> k" using b(2) n by (cases k) simp_all
  have e: "ilog2 a = int (k - 1)" using True k by (simp add: ilog2_def n_def k_def)
  have "(of_nat n :: rat) = of_int \<lfloor>a\<rfloor>" using True by (simp add: n_def)
  then have na: "of_nat n \<le> a" "a < of_nat n + 1"
    by linarith+
  have "(of_nat (2 ^ (k - 1)) :: rat) \<le> of_nat n"
    using b(1) by (rule of_nat_mono)
  then have "(2 :: rat) ^ (k - 1) \<le> of_nat n"
    by (simp only: of_nat_power of_nat_numeral)
  moreover have "2 powi (ilog2 a) = (2 :: rat) ^ (k - 1)"
    unfolding e by (rule power_int_of_nat)
  ultimately have lo: "2 powi (ilog2 a) \<le> a" using na(1) by linarith
  have "n + 1 \<le> 2 ^ k" using b(2) by simp
  then have "(of_nat (n + 1) :: rat) \<le> of_nat (2 ^ k)"
    by (rule of_nat_mono)
  then have "(of_nat n :: rat) + 1 \<le> 2 ^ k"
    by (simp only: of_nat_power of_nat_numeral of_nat_add of_nat_1)
  moreover have "ilog2 a + 1 = int k" using e k by simp
  moreover have "2 powi (int k) = (2 :: rat) ^ k"
    by (rule power_int_of_nat)
  ultimately have hi: "a < 2 powi (ilog2 a + 1)" using na(2) by simp
  from lo hi show ?thesis by blast
next
  case False
  define b where "b = 1 / a"
  have b1: "1 < b" using False assms by (simp add: b_def)
  define m where "m = nat \<lceil>b\<rceil>"
  have m2: "2 \<le> m" using b1 by (simp add: m_def) linarith
  define k where "k = floorlog 2 (m - 1)"
  have m1: "0 < m - 1" using m2 by simp
  from floorlog_bounds[OF m1, of 2] have fb: "2 ^ (k - 1) \<le> m - 1" "m - 1 < 2 ^ k"
    by (simp_all add: k_def)
  have k: "1 \<le> k" using fb(2) m1 by (cases k) simp_all
  have e: "ilog2 a = - int k" using False by (simp add: ilog2_def b_def m_def k_def)
  have bm: "b \<le> of_nat m" "of_nat m - 1 < b"
    using b1 by (simp_all add: m_def) linarith+
  have "m \<le> 2 ^ k" using fb(2) by simp
  then have "(of_nat m :: rat) \<le> of_nat (2 ^ k)"
    by (rule of_nat_mono)
  then have "(of_nat m :: rat) \<le> 2 ^ k"
    by (simp only: of_nat_power of_nat_numeral)
  with bm(1) have bk: "b \<le> 2 ^ k" by linarith
  have "(of_nat (2 ^ (k - 1)) :: rat) \<le> of_nat (m - 1)"
    using fb(1) by (rule of_nat_mono)
  then have "(2 :: rat) ^ (k - 1) \<le> of_nat (m - 1)"
    by (simp only: of_nat_power of_nat_numeral)
  moreover have "(of_nat (m - 1) :: rat) = of_nat m - 1" using m2 by simp
  ultimately have kb: "2 ^ (k - 1) < b" using bm(2) by linarith
  have a: "a = 1 / b" using assms by (simp add: b_def)
  have "2 powi (ilog2 a) = 1 / (2 :: rat) ^ k"
    by (simp add: e power_int_minus_divide)
  moreover have "1 / (2 :: rat) ^ k \<le> 1 / b"
    using bk b1 by (intro divide_left_mono) simp_all
  ultimately have lo: "2 powi (ilog2 a) \<le> a" by (simp add: a)
  have "ilog2 a + 1 = - int (k - 1)" using e k by simp
  then have "2 powi (ilog2 a + 1) = 1 / (2 :: rat) ^ (k - 1)"
    by (simp only: power_int_minus_divide power_int_of_nat)
  moreover have "1 / b < 1 / (2 :: rat) ^ (k - 1)"
    using kb b1 by (intro divide_strict_left_mono) simp_all
  ultimately have hi: "a < 2 powi (ilog2 a + 1)" by (simp add: a)
  from lo hi show ?thesis by blast
qed

lemma roundHalfEven_near: "\<bar>of_int (roundHalfEven q) - q\<bar> \<le> 1 / 2"
proof -
  have "of_int \<lfloor>q\<rfloor> \<le> q" "q < of_int \<lfloor>q\<rfloor> + 1" by linarith+
  then show ?thesis
    by (auto simp: roundHalfEven_def Let_def)
qed

lemma toDouble_near:
  assumes "1 / 10 \<le> a" and "a \<le> 2 ^ 52"
  shows "\<exists>r. toDouble a = Fin r \<and> \<bar>r - a\<bar> \<le> a / 2 ^ 53"
proof -
  have pos: "0 < a" using assms(1) by simp
  note ib = ilog2_bounds[OF pos]
  have e4: "- 4 \<le> ilog2 a"
  proof (rule ccontr)
    assume "\<not> - 4 \<le> ilog2 a"
    then have "ilog2 a + 1 \<le> - 4" by simp
    then have "(2 :: rat) powi (ilog2 a + 1) \<le> 2 powi (- 4)"
      by (intro power_int_increasing) simp_all
    also have "\<dots> = 1 / 16" by (simp add: power_int_minus_divide)
    finally show False using ib assms(1) by simp
  qed
  then have emax: "max (ilog2 a) (- 1022) = ilog2 a" by simp
  define ulp :: rat where "ulp = 2 powi (ilog2 a - 52)"
  have ulp_pos: "0 < ulp" by (simp add: ulp_def)
  have "ulp = 2 powi (ilog2 a) / 2 ^ 52"
    by (simp add: ulp_def power_int_diff)
  then have ulp_le: "ulp \<le> a / 2 ^ 52" using ib by (simp add: divide_right_mono)
  define n where "n = roundHalfEven (a / ulp)"
  define r where "r = of_int n * ulp"
  have "\<bar>of_int n - a / ulp\<bar> \<le> 1 / 2" unfolding n_def by (rule roundHalfEven_near)
  then have "\<bar>of_int n - a / ulp\<bar> * ulp \<le> (1 / 2) * ulp"
    using ulp_pos by (intro mult_right_mono) simp_all
  moreover have "(of_int n - a / ulp) * ulp = r - a"
    using ulp_pos by (simp add: r_def left_diff_distrib)
  then have "\<bar>of_int n - a / ulp\<bar> * ulp = \<bar>r - a\<bar>"
    using ulp_pos abs_mult_pos[of ulp "of_int n - a / ulp"] by simp
  ultimately have "\<bar>r - a\<bar> \<le> ulp / 2" by simp
  with ulp_le have near: "\<bar>r - a\<bar> \<le> a / 2 ^ 53" by simp
  then have "r \<le> a + a / 2 ^ 53" by linarith
  also have "\<dots> \<le> 2 ^ 52 + 2 ^ 52 / 2 ^ 53" using assms(2) by (simp add: add_mono divide_right_mono)
  also have "\<dots> < 2 ^ 53" by simp
  also have "(2 :: rat) ^ 53 \<le> 2 ^ 1024" by (rule power_increasing) simp_all
  finally have "r < 2 ^ 1024" .
  moreover have "2 powi 1024 = (2 :: rat) ^ 1024" by (simp only: power_int_numeral)
  ultimately have small: "\<not> 2 powi 1024 \<le> r" by (simp only: not_le)
  have absa: "\<bar>a\<bar> = a" using pos by simp
  have ne: "a \<noteq> 0" using pos by simp
  have "toDouble a =
      (if 2 powi 1024 \<le> r then (if 0 < a then PosInf else NegInf)
       else Fin (if 0 < a then r else - r))"
    unfolding toDouble_def Let_def absa emax r_def n_def ulp_def
    by (simp only: ne if_False)
  then have "toDouble a = Fin r"
    by (simp only: small pos if_False if_True)
  with near show ?thesis by blast
qed

lemma timestamp_less:
  assumes "i < j" and "j \<le> 2 ^ 52"
  shows "jsLess (jsDiv (of_nat i) 10) (jsDiv (of_nat j) 10)"
proof -
  have j1: "1 \<le> j" using assms(1) by simp
  have aj: "1 / 10 \<le> (of_nat j :: rat) / 10"
    using j1 by simp
  have "(of_nat j :: rat) \<le> of_nat (2 ^ 52)" using assms(2) by (simp only: of_nat_le_iff)
  then have j52: "(of_nat j :: rat) \<le> 2 ^ 52" by simp
  then have aj': "(of_nat j :: rat) / 10 \<le> 2 ^ 52" by simp
  from toDouble_near[OF aj aj'] obtain rj where
    rj: "toDouble (of_nat j / 10) = Fin rj" "\<bar>rj - of_nat j / 10\<bar> \<le> (of_nat j / 10) / 2 ^ 53"
    by blast
  have rj_lo: "(of_nat j / 10) - (of_nat j / 10) / 2 ^ 53 \<le> rj" using rj(2) by linarith
  show ?thesis
  proof (cases "i = 0")
    case True
    have "0 < (of_nat j :: rat)" using j1 by simp
    then have "0 < (of_nat j :: rat) / 10 - (of_nat j / 10) / 2 ^ 53"
      by simp
    with rj_lo have "0 < rj" by linarith
    with True rj(1) show ?thesis by (simp add: jsDiv_def toDouble_def)
  next
    case False
    then have ai: "1 / 10 \<le> (of_nat i :: rat) / 10" by simp
    have "Suc i \<le> j" using assms(1) by simp
    then have "(of_nat (Suc i) :: rat) \<le> of_nat j" by (simp only: of_nat_le_iff)
    then have ij: "(of_nat i :: rat) + 1 \<le> of_nat j" by simp
    then have ai': "(of_nat i :: rat) / 10 \<le> 2 ^ 52" using j52 by simp
    from toDouble_near[OF ai ai'] obtain ri where
      ri: "toDouble (of_nat i / 10) = Fin ri" "\<bar>ri - of_nat i / 10\<bar> \<le> (of_nat i / 10) / 2 ^ 53"
      by blast
    have ri_hi: "ri \<le> (of_nat i / 10) + (of_nat i / 10) / 2 ^ 53" using ri(2) by linarith
    have "ri < rj" using ri_hi rj_lo ij j52 by simp
    with ri(1) rj(1) show ?thesis by (simp add: jsDiv_def)
  qed
qed

lemma timestamps_increasing:
  assumes "n \<le> 2 ^ 52"
  shows "sorted_wrt jsLess (map (\<lambda>i. jsDiv (of_nat i) 10) [0..<n])"
proof -
  have "sorted_wrt (\<lambda>x y. jsLess (jsDiv (of_nat x) 10) (jsDiv (of_nat y) 10)) [0..<n]"
  proof (rule sorted_wrt_mono_rel[OF _ sorted_wrt_upt])
    fix x y assume "x \<in> set [0..<n]" "y \<in> set [0..<n]" "x < y"
    then show "jsLess (jsDiv (of_nat x) 10) (jsDiv (of_nat y) 10)"
      using assms by (intro timestamp_less) simp_all
  qed
  then show ?thesis by (simp add: sorted_wrt_map)
qed

lemma roundHalfEven_nonneg: "0 \<le> q \<Longrightarrow> 0 \<le> roundHalfEven q"
  by (auto simp: roundHalfEven_def Let_def)

lemma toDouble_small:
  assumes "0 < a" and "a < 16"
  shows "\<exists>x. toDouble a = Fin x \<and> 0 \<le> x \<and> x \<le> a + 1 / 2 ^ 50"
proof -
  note ib = ilog2_bounds[OF assms(1)]
  have e3: "ilog2 a \<le> 3"
  proof (rule ccontr)
    assume "\<not> ilog2 a \<le> 3"
    then have "4 \<le> ilog2 a" by simp
    then have "(2 :: rat) powi 4 \<le> 2 powi (ilog2 a)"
      by (intro power_int_increasing) simp_all
    then show False using ib assms(2) by simp
  qed
  define e where "e = max (ilog2 a) (- 1022)"
  define ulp :: rat where "ulp = 2 powi (e - 52)"
  have "e \<le> 3" using e3 by (simp add: e_def)
  then have "ulp \<le> 2 powi (- 49)"
    unfolding ulp_def by (intro power_int_increasing) simp_all
  then have ulp_le: "ulp \<le> 1 / 2 ^ 49" by (simp add: power_int_minus_divide)
  have ulp_pos: "0 < ulp" by (simp add: ulp_def)
  define n where "n = roundHalfEven (a / ulp)"
  define x where "x = of_int n * ulp"
  have "0 \<le> a / ulp" using assms(1) ulp_pos by simp
  then have n0: "0 \<le> n" unfolding n_def by (rule roundHalfEven_nonneg)
  then have x0: "0 \<le> x" using ulp_pos by (simp add: x_def)
  have "\<bar>of_int n - a / ulp\<bar> \<le> 1 / 2" unfolding n_def by (rule roundHalfEven_near)
  then have "\<bar>of_int n - a / ulp\<bar> * ulp \<le> (1 / 2) * ulp"
    using ulp_pos by (intro mult_right_mono) simp_all
  moreover have "(of_int n - a / ulp) * ulp = x - a"
    using ulp_pos by (simp add: x_def left_diff_distrib)
  then have "\<bar>of_int n - a / ulp\<bar> * ulp = \<bar>x - a\<bar>"
    using ulp_pos abs_mult_pos[of ulp "of_int n - a / ulp"] by simp
  ultimately have "\<bar>x - a\<bar> \<le> ulp / 2" by simp
  moreover have "ulp / 2 \<le> 1 / 2 ^ 50" using ulp_le by simp
  ultimately have near: "x \<le> a + 1 / 2 ^ 50" by linarith
  then have "x < 2 ^ 5" using assms(2) by simp
  also have "(2 :: rat) ^ 5 \<le> 2 ^ 1024" by (rule power_increasing) simp_all
  finally have "x < 2 ^ 1024" .
  moreover have "2 powi 1024 = (2 :: rat) ^ 1024" by (simp only: power_int_numeral)
  ultimately have small: "\<not> 2 powi 1024 \<le> x" by (simp only: not_le)
  have absa: "\<bar>a\<bar> = a" using assms(1) by simp
  have ne: "a \<noteq> 0" using assms(1) by simp
  have "toDouble a =
      (if 2 powi 1024 \<le> x then (if 0 < a then PosInf else NegInf)
       else Fin (if 0 < a then x else - x))"
    unfolding toDouble_def Let_def absa x_def n_def ulp_def e_def
    by (simp only: ne if_False)
  then have "toDouble a = Fin x"
    by (simp only: small assms(1) if_False if_True)
  with x0 near show ?thesis by blast
qed

lemma toDouble_at:
  assumes "0 < x" and "ilog2 x = e" and "- 1022 \<le> e"
    and "of_int (roundHalfEven (x / 2 powi (e - 52))) * 2 powi (e - 52) = r"
    and "r < 2 ^ 1024"
  shows "toDouble x = Fin r"
proof -
  have absx: "\<bar>x\<bar> = x" and ne: "x \<noteq> 0" using assms(1) by simp_all
  have emax: "max (ilog2 x) (- 1022) = e" using assms(2,3) by simp
  have "2 powi 1024 = (2 :: rat) ^ 1024" by (simp only: power_int_numeral)
  with assms(5) have small: "\<not> 2 powi 1024 \<le> r" by (simp only: not_le)
  have "toDouble x =
      (if 2 powi 1024 \<le> r then (if 0 < x then PosInf else NegInf)
       else Fin (if 0 < x then r else - r))"
    unfolding toDouble_def Let_def absx emax assms(4)
    by (simp only: ne if_False)
  then show ?thesis
    by (simp only: small assms(1) if_False if_True)
qed

lemma small_bound: "r < 2 ^ 10 \<Longrightarrow> (r :: rat) < 2 ^ 1024"
proof -
  assume "r < 2 ^ 10"
  also have "(2 :: rat) ^ 10 \<le> 2 ^ 1024" by (rule power_increasing) simp_all
  finally show ?thesis .
qed

lemma toDouble_50: "toDouble (50) = Fin (50)"
proof (rule toDouble_at[where e = "5"])
  show "ilog2 (50 :: rat) = 5" by code_simp
  show "of_int (roundHalfEven ((50 :: rat) / 2 powi (5 - 52))) * 2 powi (5 - 52) = (50 :: rat)"
    by code_simp
  show "(50 :: rat) < 2 ^ 1024" by (rule small_bound) simp
qed simp_all

lemma toDouble_100: "toDouble (100) = Fin (100)"
proof (rule toDouble_at[where e = "6"])
  show "ilog2 (100 :: rat) = 6" by code_simp
  show "of_int (roundHalfEven ((100 :: rat) / 2 powi (6 - 52))) * 2 powi (6 - 52) = (100 :: rat)"
    by code_simp
  show "(100 :: rat) < 2 ^ 1024" by (rule small_bound) simp
qed simp_all

lemma toDouble_7: "toDouble (15762598695796735 / 2251799813685248) = Fin (7)"
proof (rule toDouble_at[where e = "2"])
  show "ilog2 (15762598695796735 / 2251799813685248 :: rat) = 2" by code_simp
  show "of_int (roundHalfEven ((15762598695796735 / 2251799813685248 :: rat) / 2 powi (2 - 52))) * 2 powi (2 - 52) = (7 :: rat)"
    by code_simp
  show "(7 :: rat) < 2 ^ 1024" by (rule small_bound) simp
qed simp_all

lemma toDouble_13_2: "toDouble (13 / 2) = Fin (13 / 2)"
proof (rule toDouble_at[where e = "2"])
  show "ilog2 (13 / 2 :: rat) = 2" by code_simp
  show "of_int (roundHalfEven ((13 / 2 :: rat) / 2 powi (2 - 52))) * 2 powi (2 - 52) = (13 / 2 :: rat)"
    by code_simp
  show "(13 / 2 :: rat) < 2 ^ 1024" by (rule small_bound) simp
qed simp_all

lemma toDouble_23_40: "toDouble (23 / 40) = Fin (2589569785738035 / 4503599627370496)"
proof (rule toDouble_at[where e = "- 1"])
  show "ilog2 (23 / 40 :: rat) = - 1" by code_simp
  show "of_int (roundHalfEven ((23 / 40 :: rat) / 2 powi (- 1 - 52))) * 2 powi (- 1 - 52) = (2589569785738035 / 4503599627370496 :: rat)"
    by code_simp
  show "(2589569785738035 / 4503599627370496 :: rat) < 2 ^ 1024" by (rule small_bound) simp
qed simp_all

lemma toDouble_h368: "toDouble (64739244643450875 / 281474976710656) = Fin (8092405580431359 / 35184372088832)"
proof (rule toDouble_at[where e = "7"])
  show "ilog2 (64739244643450875 / 281474976710656 :: rat) = 7" by code_simp
  show "of_int (roundHalfEven ((64739244643450875 / 281474976710656 :: rat) / 2 powi (7 - 52))) * 2 powi (7 - 52) = (8092405580431359 / 35184372088832 :: rat)"
    by code_simp
  show "(8092405580431359 / 35184372088832 :: rat) < 2 ^ 1024" by (rule small_bound) simp
qed simp_all

lemma toDouble_228: "toDouble (228) = Fin (228)"
proof (rule toDouble_at[where e = "7"])
  show "ilog2 (228 :: rat) = 7" by code_simp
  show "of_int (roundHalfEven ((228 :: rat) / 2 powi (7 - 52))) * 2 powi (7 - 52) = (228 :: rat)"
    by code_simp
  show "(228 :: rat) < 2 ^ 1024" by (rule small_bound) simp
qed simp_all

lemma toDouble_9_16: "toDouble (9 / 16) = Fin (9 / 16)"
proof (rule toDouble_at[where e = "- 1"])
  show "ilog2 (9 / 16 :: rat) = - 1" by code_simp
  show "of_int (roundHalfEven ((9 / 16 :: rat) / 2 powi (- 1 - 52))) * 2 powi (- 1 - 52) = (9 / 16 :: rat)"
    by code_simp
  show "(9 / 16 :: rat) < 2 ^ 1024" by (rule small_bound) simp
qed simp_all

lemma toDouble_225: "toDouble (225) = Fin (225)"
proof (rule toDouble_at[where e = "7"])
  show "ilog2 (225 :: rat) = 7" by code_simp
  show "of_int (roundHalfEven ((225 :: rat) / 2 powi (7 - 52))) * 2 powi (7 - 52) = (225 :: rat)"
    by code_simp
  show "(225 :: rat) < 2 ^ 1024" by (rule small_bound) simp
qed simp_all

lemma toDouble_224: "toDouble (224) = Fin (224)"
proof (rule toDouble_at[where e = "7"])
  show "ilog2 (224 :: rat) = 7" by code_simp
  show "of_int (roundHalfEven ((224 :: rat) / 2 powi (7 - 52))) * 2 powi (7 - 52) = (224 :: rat)"
    by code_simp
  show "(224 :: rat) < 2 ^ 1024" by (rule small_bound) simp
qed simp_all

lemma toDouble_9_10: "toDouble (9 / 10) = Fin (8106479329266893 / 9007199254740992)"
proof (rule toDouble_at[where e = "- 1"])
  show "ilog2 (9 / 10 :: rat) = - 1" by code_simp
  show "of_int (roundHalfEven ((9 / 10 :: rat) / 2 powi (- 1 - 52))) * 2 powi (- 1 - 52) = (8106479329266893 / 9007199254740992 :: rat)"
    by code_simp
  show "(8106479329266893 / 9007199254740992 :: rat) < 2 ^ 1024" by (rule small_bound) simp
qed simp_all

lemma jsMul_5_10: "jsMul (Fin 5) 10 = Fin 50"
  by (simp add: jsMul_def toDouble_50)

lemma jsMul_07_10: "jsMul (Fin (3152519739159347 / 4503599627370496)) 10 = Fin 7"
  by (simp add: jsMul_def toDouble_7)

lemma jsDiv_1000_10: "jsDiv 1000 10 = Fin 100"
  by (simp add: jsDiv_def toDouble_100)

section \<open>Facts about the trace, the retrier and the poller\<close>

lemma callsOf_append [simp]: "callsOf (t @ u) = callsOf t @ callsOf u"
  by (induction t rule: callsOf.induct) simp_all

lemma sleeps_append [simp]: "sleeps (t @ u) = sleeps t @ sleeps u"
  by (induction t rule: sleeps.induct) simp_all

lemma netCalls_append [simp]: "netCalls (t @ u) = netCalls t + netCalls u"
  by (simp add: netCalls_def)

lemma netCalls_simps [simp]:
  "netCalls [] = 0" "netCalls (Call r # t) = Suc (netCalls t)" "netCalls (Sleep ms # t) = netCalls t"
  by (simp_all add: netCalls_def)

lemma sleep_simps [simp]:
  "now (sleep ms w) = now w + ms" "trace (sleep ms w) = trace w @ [Sleep ms]"
  by (simp_all add: sleep_def)

lemma invoke_simps [simp]:
  "fst (invoke req script w) = snd (script (netCalls (trace w)))"
  "now (snd (invoke req script w)) = now w + fst (script (netCalls (trace w)))"
  "trace (snd (invoke req script w)) = trace w @ [Call req]"
  by (simp_all add: invoke_def)

lemma withRetry_nonretryable:
  assumes "fn w = (Inl e, w1)" and "\<not> isRetryable (messageOf e)"
  shows "withRetry fn retries baseDelay w = (Inl e, w1)"
  by (subst withRetry.simps) (simp add: assms)

lemma withRetry_0: "withRetry fn 0 baseDelay w = fn w"
  by (subst withRetry.simps) (auto split: prod.splits sum.splits)

lemma withRetry_Suc_retry:
  assumes "fst (fn w) = Inl e" and "isRetryable (messageOf e)"
  shows "withRetry fn (Suc r) baseDelay w = withRetry fn r (baseDelay * 2) (sleep baseDelay (snd (fn w)))"
  using assms by (subst withRetry.simps) (auto split: prod.splits sum.splits)

lemma upt_map_shift: "map f [0..<Suc n] = f 0 # map (\<lambda>k. f (Suc k)) [0..<n]"
  by (simp add: upt_conv_Cons map_Suc_upt[symmetric] del: upt_Suc)

lemma withRetry_transient_trace:
  assumes "\<forall>k<retries. \<exists>e. snd (script (netCalls (trace w) + k)) = Inl e \<and> isRetryable (messageOf e)"
  shows "trace (snd (withRetry (invoke req script) retries baseDelay w)) =
           trace w @ concat (map (\<lambda>k. [Call req, Sleep (baseDelay * 2 ^ k)]) [0..<retries]) @ [Call req]
         \<and> fst (withRetry (invoke req script) retries baseDelay w) = snd (script (netCalls (trace w) + retries))"
  using assms
proof (induction retries arbitrary: baseDelay w)
  case 0
  then show ?case by (simp add: withRetry_0)
next
  case (Suc r)
  from Suc.prems obtain e where e: "snd (script (netCalls (trace w))) = Inl e" "isRetryable (messageOf e)"
    by force
  let ?w1 = "sleep baseDelay (snd (invoke req script w))"
  have step: "withRetry (invoke req script) (Suc r) baseDelay w = withRetry (invoke req script) r (baseDelay * 2) ?w1"
    using e by (intro withRetry_Suc_retry) simp_all
  have n: "netCalls (trace ?w1) = Suc (netCalls (trace w))" by simp
  have "\<forall>k<r. \<exists>e. snd (script (netCalls (trace ?w1) + k)) = Inl e \<and> isRetryable (messageOf e)"
    using Suc.prems unfolding n by (metis Suc_less_eq add_Suc_shift)
  from Suc.IH[OF this, of "baseDelay * 2"] show ?case
    unfolding step by (simp add: upt_map_shift mult.assoc del: upt_Suc)
qed


lemma pollLoop_done_entry: "op_done opn \<Longrightarrow> pollLoop g st opn w = (Inr opn, w)"
  by (subst pollLoop.simps) simp

lemma pollLoop_returns_done: "fst (pollLoop g st opn w) = Inr op' \<Longrightarrow> op_done op'"
proof (induction g st opn w rule: pollLoop.induct)
  case (1 g st opn w)
  from "1.prems" show ?case
    by (subst (asm) pollLoop.simps) (auto split: if_splits prod.splits sum.splits dest: "1.IH")
qed

lemma invoke_poll_step:
  assumes "(r, w1) = invoke (GetVideosOperation opn) g (sleep 10000 w)"
  shows "netCalls (trace w1) = Suc (netCalls (trace w))"
    and "r = snd (g (netCalls (trace w)))"
    and "now w1 = now w + 10000 + fst (g (netCalls (trace w)))"
  using assms by (auto simp: invoke_def)

lemma pollLoop_time:
  assumes "\<forall>k. fst (g k) \<le> L" and "now w \<le> st + MAX_WAIT_TIME + 10000 + L"
  shows "now (snd (pollLoop g st opn w)) \<le> st + MAX_WAIT_TIME + 10000 + L"
  using assms
proof (induction g st opn w rule: pollLoop.induct)
  case (1 g st opn w)
  show ?case
  proof (cases "op_done opn \<or> now w - st > MAX_WAIT_TIME")
    case True
    then show ?thesis using "1.prems"(2) by (subst pollLoop.simps) auto
  next
    case False
    obtain r w1 where inv: "(r, w1) = invoke (GetVideosOperation opn) g (sleep 10000 w)"
      by (metis surj_pair)
    from False have "now w \<le> st + MAX_WAIT_TIME" by auto
    moreover have "fst (g (netCalls (trace w))) \<le> L" using "1.prems"(1) by blast
    ultimately have bound: "now w1 \<le> st + MAX_WAIT_TIME + 10000 + L"
      using invoke_poll_step(3)[OF inv] by simp
    show ?thesis
    proof (cases r)
      case (Inr op')
      with False inv have "pollLoop g st opn w = pollLoop g st op' w1"
        by (subst pollLoop.simps) (simp add: inv[symmetric])
      with "1.IH"(2)[OF _ _ inv Inr "1.prems"(1) bound] False show ?thesis by simp
    next
      case (Inl e1)
      show ?thesis
      proof (cases "pollRetryable (messageOf e1)")
        case True
        with False inv Inl have "pollLoop g st opn w = pollLoop g st opn w1"
          by (subst pollLoop.simps) (simp add: inv[symmetric])
        with "1.IH"(1)[OF _ _ inv Inl True "1.prems"(1) bound] False show ?thesis by simp
      next
        case nt: False
        with False inv Inl have "pollLoop g st opn w = (Inl e1, w1)"
          by (subst pollLoop.simps) (simp add: inv[symmetric])
        with bound show ?thesis by simp
      qed
    qed
  qed
qed

lemma pollLoop_error:
  assumes "pollLoop g st opn w = (Inl e, w')"
  shows "(e = timeoutError \<and> MAX_WAIT_TIME < now w' - st \<and> netCalls (trace w) \<le> netCalls (trace w')) \<or>
         (netCalls (trace w) < netCalls (trace w') \<and>
          snd (g (netCalls (trace w') - 1)) = Inl e \<and> \<not> pollRetryable (messageOf e))"
  using assms
proof (induction g st opn w rule: pollLoop.induct)
  case (1 g st opn w)
  show ?case
  proof (cases "op_done opn \<or> now w - st > MAX_WAIT_TIME")
    case True
    then show ?thesis using "1.prems" by (subst (asm) pollLoop.simps) (auto split: if_splits)
  next
    case False
    obtain r w1 where inv: "(r, w1) = invoke (GetVideosOperation opn) g (sleep 10000 w)"
      by (metis surj_pair)
    note n1 = invoke_poll_step(1)[OF inv] and r = invoke_poll_step(2)[OF inv]
    show ?thesis
    proof (cases r)
      case (Inr op')
      with False inv have "pollLoop g st opn w = pollLoop g st op' w1"
        by (subst pollLoop.simps) (simp add: inv[symmetric])
      with "1.prems" have "pollLoop g st op' w1 = (Inl e, w')" by simp
      from "1.IH"(2)[OF _ _ inv Inr this] False n1 show ?thesis by auto
    next
      case (Inl e1)
      show ?thesis
      proof (cases "pollRetryable (messageOf e1)")
        case True
        with False inv Inl have "pollLoop g st opn w = pollLoop g st opn w1"
          by (subst pollLoop.simps) (simp add: inv[symmetric])
        with "1.prems" have "pollLoop g st opn w1 = (Inl e, w')" by simp
        from "1.IH"(1)[OF _ _ inv Inl True this] False n1 show ?thesis by auto
      next
        case nt: False
        with False inv Inl have "pollLoop g st opn w = (Inl e1, w1)"
          by (subst pollLoop.simps) (simp add: inv[symmetric])
        with "1.prems" have "e = e1" "w' = w1" by simp_all
        then show ?thesis using nt n1 r Inl by simp
      qed
    qed
  qed
qed

lemma pollLoop_step:
  "\<not> op_done opn \<Longrightarrow> \<not> MAX_WAIT_TIME < now w - st \<Longrightarrow>
   pollLoop g st opn w =
     (case invoke (GetVideosOperation opn) g (sleep 10000 w) of
        (Inr op', w') \<Rightarrow> pollLoop g st op' w'
      | (Inl e, w') \<Rightarrow> if pollRetryable (messageOf e) then pollLoop g st opn w' else (Inl e, w'))"
  by (subst pollLoop.simps) simp

lemma pollLoop_timeout:
  "\<not> op_done opn \<Longrightarrow> MAX_WAIT_TIME < now w - st \<Longrightarrow> pollLoop g st opn w = (Inl timeoutError, w)"
  by (subst pollLoop.simps) simp

lemma isRetryable_rateLimit: "isRetryable (messageOf rateLimitError)"
  by (simp add: isRetryable_def messageOf_def rateLimitError_def)

lemma not_pollRetryable_rateLimit: "\<not> pollRetryable (messageOf rateLimitError)"
  by (simp add: pollRetryable_def messageOf_def rateLimitError_def)

lemma not_isRetryable_notFound: "\<not> isRetryable (messageOf notFoundError)"
  by (simp add: isRetryable_def messageOf_def notFoundError_def)

lemma netCalls_backoff [simp]:
  "netCalls (concat (map (\<lambda>k. [Call req, Sleep (f k)]) [0..<n])) = n"
  by (induction n) simp_all

lemma sleeps_backoff [simp]:
  "sleeps (concat (map (\<lambda>k. [Call req, Sleep (f k)]) [0..<n])) = map f [0..<n]"
  by (induction n) simp_all

section \<open>Facts about the generation client\<close>

lemma withRetry_retry:
  assumes "0 < retries" and "fst (fn w) = Inl e" and "isRetryable (messageOf e)"
  shows "withRetry fn retries baseDelay w =
           withRetry fn (retries - 1) (baseDelay * 2) (sleep baseDelay (snd (fn w)))"
  using assms by (subst withRetry.simps) (auto split: prod.splits sum.splits)

lemma withRetry_success:
  assumes "fst (fn w) = Inr v"
  shows "withRetry fn retries baseDelay w = fn w"
  using assms by (subst withRetry.simps) (auto split: prod.splits sum.splits)

lemma withRetry_calls:
  assumes "\<And>w. callsOf (trace (snd (fn w))) = callsOf (trace w) @ [req]"
  shows "\<exists>n>0. callsOf (trace (snd (withRetry fn retries baseDelay w))) = callsOf (trace w) @ replicate n req"
proof (induction retries arbitrary: baseDelay w)
  case 0
  have "callsOf (trace (snd (withRetry fn 0 baseDelay w))) = callsOf (trace w) @ replicate 1 req"
    by (simp add: withRetry_0 assms)
  then show ?case by blast
next
  case (Suc r)
  show ?case
  proof (cases "\<exists>e. fst (fn w) = Inl e \<and> isRetryable (messageOf e)")
    case True
    then obtain e where e: "fst (fn w) = Inl e" "isRetryable (messageOf e)" by blast
    let ?w1 = "sleep baseDelay (snd (fn w))"
    from Suc.IH[of "baseDelay * 2" ?w1] obtain n where
      n: "callsOf (trace (snd (withRetry fn r (baseDelay * 2) ?w1))) = callsOf (trace ?w1) @ replicate n req"
      by blast
    have "callsOf (trace (snd (withRetry fn (Suc r) baseDelay w))) = callsOf (trace w) @ replicate (Suc n) req"
      using n by (simp add: withRetry_Suc_retry[where fn = fn and w = w, OF e] assms)
    then show ?thesis by blast
  next
    case False
    have "withRetry fn (Suc r) baseDelay w = fn w"
      using False by (subst withRetry.simps) (auto split: prod.splits sum.splits)
    then have "callsOf (trace (snd (withRetry fn (Suc r) baseDelay w))) = callsOf (trace w) @ replicate 1 req"
      by (simp add: assms)
    then show ?thesis by blast
  qed
qed

lemma splitAcc_nonempty: "splitAcc sep acc s \<noteq> []"
  by (induction sep acc s rule: splitAcc.induct) simp_all

lemma split_nonempty: "split s sep \<noteq> []"
  by (simp add: split_def splitAcc_nonempty)

lemma imageAttempt_calls:
  "callsOf (trace (snd (imageAttempt ai text style typographyPrompt referenceImage w))) =
     callsOf (trace w) @ [imageRequest text style typographyPrompt referenceImage]"
  by (simp add: imageAttempt_def invoke_def split: sum.splits)

lemma getRandomStyle_member:
  assumes "0 \<le> r" and "r \<le> 1 - 1 / 2 ^ 53"
  shows "\<exists>s \<in> set styles. getRandomStyle r = Some s"
proof -
  have len: "length styles = 13" by (simp add: styles_def)
  have "\<exists>x. toDouble (r * 13) = Fin x \<and> 0 \<le> x \<and> x < 13"
  proof (cases "r = 0")
    case True
    then show ?thesis by (simp add: toDouble_def)
  next
    case False
    with assms(1) have pos: "0 < r * 13" by simp
    have le: "r * 13 \<le> 13 - 13 / 2 ^ 53" using assms(2) by simp
    then have "r * 13 < 16" by simp
    from toDouble_small[OF pos this] obtain x where
      x: "toDouble (r * 13) = Fin x" "0 \<le> x" "x \<le> r * 13 + 1 / 2 ^ 50" by blast
    from x(3) le have "x < 13" by simp
    with x(1,2) show ?thesis by blast
  qed
  then obtain x where x: "toDouble (r * 13) = Fin x" "0 \<le> x" "x < 13" by blast
  let ?i = "\<lfloor>x\<rfloor>"
  have lo: "0 \<le> ?i" using x(2) by simp
  have hi: "?i < 13" using x(3) by (simp add: floor_less_iff)
  from lo hi have "nat ?i < 13" by linarith
  then have "nat ?i < length styles" by (simp only: len)
  then have mem: "styles ! nat ?i \<in> set styles" by (rule nth_mem)
  have "getRandomStyle r = Some (styles ! nat ?i)"
    using x(1) lo hi by (simp add: getRandomStyle_def jsMul_def mathFloor_def len)
  with mem show ?thesis by blast
qed

lemma getRandomStyle_half:
  "getRandomStyle (1 / 2) = Some ''displayed on a futuristic translucent holographic interface''"
proof -
  have "jsMul (Fin (1 / 2)) 13 = Fin (13 / 2)"
    by (simp add: jsMul_def toDouble_13_2)
  moreover have "\<lfloor>13 / 2 :: rat\<rfloor> = 6"
    by (rule floor_unique) simp_all
  ultimately show ?thesis
    by (simp add: getRandomStyle_def mathFloor_def styles_def)
qed

lemma trim_blank: "trim [CHR 0xC2, CHR 0xA0, CHR 0x20] = []"
  by (simp add: trim_def whiteSpace_def)

lemma fetchAttempt_trace:
  assumes "newURL env uri (case API_KEY env of None \<Rightarrow> [] | Some k \<Rightarrow> k) = Inr url"
  shows "trace (snd (fetchAttempt env uri w)) = trace w @ [Call (Fetch url)]"
  using assms by (simp add: fetchAttempt_def invoke_def split: sum.splits)

lemma fetchAttempt_retryable:
  assumes "newURL env uri (case API_KEY env of None \<Rightarrow> [] | Some k \<Rightarrow> k) = Inr url"
    and "case snd (fetch env (netCalls (trace w))) of
           Inl e \<Rightarrow> isRetryable (messageOf e)
         | Inr videoResponse \<Rightarrow>
             \<not> resp_ok videoResponse \<and>
             isRetryable (''Failed to fetch video content: '' @ resp_statusText videoResponse)"
  shows "\<exists>e. fst (fetchAttempt env uri w) = Inl e \<and> isRetryable (messageOf e)"
  using assms by (auto simp: fetchAttempt_def invoke_def messageOf_def split: sum.splits)

section \<open>Facts about the frame transcoder\<close>

lemma gifLoop_exit:
  "\<not> jsLess (Fin (of_nat i)) totalFrames \<Longrightarrow>
   gifLoop v width height totalFrames i g = Some (Inr (), g)"
  by (subst gifLoop.simps) simp

lemma gifLoop_step:
  assumes "jsLess (Fin (of_nat i)) totalFrames"
    and "capture v i (jsDiv (of_nat i) (of_nat fps)) width height = Inr data"
  shows "gifLoop v width height totalFrames i g =
           gifLoop v width height totalFrames (i + 1)
             (writeFrame v
                \<lparr>fr_index = applyPalette v data (quantize v data 256), fr_width = width,
                  fr_height = height, fr_palette = quantize v data 256,
                  fr_delay = jsDiv 1000 (of_nat fps)\<rparr>
                (g\<lparr>seeks := seeks g @ [jsDiv (of_nat i) (of_nat fps)]\<rparr>))"
  using assms by (subst gifLoop.simps) (simp add: Let_def)

lemma gifLoop_all:
  assumes "\<forall>j. i \<le> j \<and> int j < T \<longrightarrow>
             (\<exists>d. capture v j (jsDiv (of_nat j) (of_nat fps)) width height = Inr d)"
  shows "\<exists>g'. gifLoop v width height (Fin (of_int T)) i g = Some (Inr (), g')
       \<and> seeks g' = seeks g @ map (\<lambda>j. jsDiv (of_nat j) (of_nat fps)) [i..<nat T]
       \<and> (\<exists>rest. written g' = written g @ rest
            \<and> length rest = nat T - i
            \<and> (\<forall>k<length rest. \<exists>data.
                  capture v (i + k) (jsDiv (of_nat (i + k)) (of_nat fps)) width height = Inr data \<and>
                  rest ! k =
                    \<lparr>fr_index = applyPalette v data (quantize v data 256), fr_width = width,
                      fr_height = height, fr_palette = quantize v data 256,
                      fr_delay = jsDiv 1000 (of_nat fps)\<rparr>))"
  using assms
proof (induction "nat T - i" arbitrary: i g)
  case 0
  then have "\<not> jsLess (Fin (of_nat i)) (Fin (of_int T))" by simp
  moreover have "nat T \<le> i" using 0 by simp
  ultimately show ?case by (simp add: gifLoop_exit)
next
  case (Suc n)
  then have lt: "int i < T" by linarith
  then have cond: "jsLess (Fin (of_nat i)) (Fin (of_int T))"
    by simp
  from Suc.prems lt obtain d where
    d: "capture v i (jsDiv (of_nat i) (of_nat fps)) width height = Inr d"
    by blast
  let ?fr = "\<lparr>fr_index = applyPalette v d (quantize v d 256), fr_width = width,
               fr_height = height, fr_palette = quantize v d 256,
               fr_delay = jsDiv 1000 (of_nat fps)\<rparr>"
  let ?g2 = "writeFrame v ?fr (g\<lparr>seeks := seeks g @ [jsDiv (of_nat i) (of_nat fps)]\<rparr>)"
  have step: "gifLoop v width height (Fin (of_int T)) i g =
              gifLoop v width height (Fin (of_int T)) (i + 1) ?g2"
    by (rule gifLoop_step[OF cond d])
  have n: "n = nat T - (i + 1)" using Suc.hyps(2) by simp
  have pre: "\<forall>j. i + 1 \<le> j \<and> int j < T \<longrightarrow>
             (\<exists>d. capture v j (jsDiv (of_nat j) (of_nat fps)) width height = Inr d)"
    using Suc.prems by auto
  from Suc.hyps(1)[OF n pre, of ?g2] obtain g' rest where ih:
    "gifLoop v width height (Fin (of_int T)) (i + 1) ?g2 = Some (Inr (), g')"
    "seeks g' = seeks ?g2 @ map (\<lambda>j. jsDiv (of_nat j) (of_nat fps)) [i + 1..<nat T]"
    "written g' = written ?g2 @ rest"
    "length rest = nat T - (i + 1)"
    "\<forall>k<length rest. \<exists>data.
        capture v (i + 1 + k) (jsDiv (of_nat (i + 1 + k)) (of_nat fps)) width height = Inr data \<and>
        rest ! k =
          \<lparr>fr_index = applyPalette v data (quantize v data 256), fr_width = width,
            fr_height = height, fr_palette = quantize v data 256,
            fr_delay = jsDiv 1000 (of_nat fps)\<rparr>"
    by blast
  have ltn: "i < nat T" using lt by simp
  have upt: "[i..<nat T] = i # [i + 1..<nat T]"
    using ltn by (simp add: upt_conv_Cons)
  have a: "gifLoop v width height (Fin (of_int T)) i g = Some (Inr (), g')"
    using ih(1) step by simp
  have b: "seeks g' = seeks g @ map (\<lambda>j. jsDiv (of_nat j) (of_nat fps)) [i..<nat T]"
    using ih(2) unfolding upt by (simp add: writeFrame_def)
  have c1: "written g' = written g @ (?fr # rest)"
    using ih(3) by (simp add: writeFrame_def)
  have c2: "length (?fr # rest) = nat T - i"
    using ih(4) ltn by simp
  have c3: "\<forall>k<length (?fr # rest). \<exists>data.
        capture v (i + k) (jsDiv (of_nat (i + k)) (of_nat fps)) width height = Inr data \<and>
        (?fr # rest) ! k =
          \<lparr>fr_index = applyPalette v data (quantize v data 256), fr_width = width,
            fr_height = height, fr_palette = quantize v data 256,
            fr_delay = jsDiv 1000 (of_nat fps)\<rparr>"
  proof (intro allI impI)
    fix k assume k: "k < length (?fr # rest)"
    show "\<exists>data.
        capture v (i + k) (jsDiv (of_nat (i + k)) (of_nat fps)) width height = Inr data \<and>
        (?fr # rest) ! k =
          \<lparr>fr_index = applyPalette v data (quantize v data 256), fr_width = width,
            fr_height = height, fr_palette = quantize v data 256,
            fr_delay = jsDiv 1000 (of_nat fps)\<rparr>"
    proof (cases k)
      case 0
      then show ?thesis using d by simp
    next
      case (Suc k')
      with k have "k' < length rest" by simp
      with ih(5) Suc show ?thesis by simp
    qed
  qed
  from a b c1 c2 c3 show ?case by blast
qed

lemma gifLoop_unbounded_aux:
  assumes "gifLoop v width height t i g = Some y"
  shows "t = PosInf \<longrightarrow>
         (\<forall>j. \<exists>d. capture v j (jsDiv (of_nat j) (of_nat fps)) width height = Inr d) \<longrightarrow> False"
proof (rule gifLoop.raw_induct[where P = "\<lambda>v width height t i g y. t = PosInf \<longrightarrow>
         (\<forall>j. \<exists>d. capture v j (jsDiv (of_nat j) (of_nat fps)) width height = Inr d) \<longrightarrow> False",
       OF _ assms])
  fix loop v width height t i g y
  assume ih: "\<And>v width height t i g y. loop v width height t i g = Some y \<Longrightarrow>
         t = PosInf \<longrightarrow>
         (\<forall>j. \<exists>d. capture v j (jsDiv (of_nat j) (of_nat fps)) width height = Inr d) \<longrightarrow> False"
    and unf: "(if jsLess (Fin (of_nat i)) t then
        (let time = jsDiv (of_nat i) (of_nat fps);
             g1 = g\<lparr>seeks := seeks g @ [time]\<rparr>
         in case capture v i time width height of
              Inl e \<Rightarrow> Some (Inl e, g1)
            | Inr data \<Rightarrow>
                (let palette = quantize v data 256;
                     index = applyPalette v data palette
                 in loop v width height t (i + 1)
                      (writeFrame v
                         \<lparr>fr_index = index, fr_width = width, fr_height = height,
                          fr_palette = palette, fr_delay = jsDiv 1000 (of_nat fps)\<rparr> g1)))
      else Some (Inr (), g)) = Some y"
  show "t = PosInf \<longrightarrow>
         (\<forall>j. \<exists>d. capture v j (jsDiv (of_nat j) (of_nat fps)) width height = Inr d) \<longrightarrow> False"
  proof (intro impI)
    assume t: "t = PosInf"
      and c: "\<forall>j. \<exists>d. capture v j (jsDiv (of_nat j) (of_nat fps)) width height = Inr d"
    from c obtain d where
      d: "capture v i (jsDiv (of_nat i) (of_nat fps)) width height = Inr d" by blast
    from unf t d obtain g2 where "loop v width height t (i + 1) g2 = Some y"
      by (simp add: Let_def)
    from ih[OF this] t c show False by blast
  qed
qed

lemma gifLoop_unbounded:
  assumes "\<forall>j. \<exists>d. capture v j (jsDiv (of_nat j) (of_nat fps)) width height = Inr d"
  shows "gifLoop v width height PosInf i g = None"
proof (cases "gifLoop v width height PosInf i g")
  case None
  then show ?thesis .
next
  case (Some y)
  from gifLoop_unbounded_aux[OF Some] assms show ?thesis by blast
qed

lemma stream_finish: "stream (finish g) \<noteq> []"
  by (simp add: finish_def)

lemma createGifFromVideo_run:
  assumes "gifLoaded v" and "loads v" and "hasContext v"
    and "jsMul (durationOr5 (duration v)) 10 = Fin x"
    and "\<forall>i. int i < \<lfloor>x\<rfloor> \<longrightarrow>
           (\<exists>data. capture v i (jsDiv (of_nat i) 10) 400 (heightOf v) = Inr data)"
  shows "\<exists>g. createGifFromVideo v =
             Some (Inr \<lparr>blob_bytes = stream g, blob_type = ''image/gif''\<rparr>, g)
         \<and> stream g \<noteq> []
         \<and> length (written g) = nat \<lfloor>x\<rfloor>
         \<and> seeks g = map (\<lambda>i. jsDiv (of_nat i) 10) [0..<nat \<lfloor>x\<rfloor>]
         \<and> (\<forall>i<nat \<lfloor>x\<rfloor>. \<exists>data.
               capture v i (jsDiv (of_nat i) 10) 400 (heightOf v) = Inr data \<and>
               written g ! i =
                 \<lparr>fr_index = applyPalette v data (quantize v data 256), fr_width = 400,
                   fr_height = heightOf v, fr_palette = quantize v data 256,
                   fr_delay = jsDiv 1000 10\<rparr>)"
proof -
  have tf: "totalFramesOf v = Fin (of_int \<lfloor>x\<rfloor>)"
    using assms(4) by (simp add: totalFramesOf_def fps_def mathFloor_def)
  have pre: "\<forall>j. 0 \<le> j \<and> int j < \<lfloor>x\<rfloor> \<longrightarrow>
             (\<exists>d. capture v j (jsDiv (of_nat j) (of_nat fps)) 400 (heightOf v) = Inr d)"
    using assms(5) by (simp add: fps_def)
  from gifLoop_all[OF pre, of GIFEncoder] obtain g' rest where run:
    "gifLoop v 400 (heightOf v) (Fin (of_int \<lfloor>x\<rfloor>)) 0 GIFEncoder = Some (Inr (), g')"
    "seeks g' = seeks GIFEncoder @ map (\<lambda>j. jsDiv (of_nat j) (of_nat fps)) [0..<nat \<lfloor>x\<rfloor>]"
    "written g' = written GIFEncoder @ rest"
    "length rest = nat \<lfloor>x\<rfloor> - 0"
    "\<forall>k<length rest. \<exists>data.
        capture v (0 + k) (jsDiv (of_nat (0 + k)) (of_nat fps)) 400 (heightOf v) = Inr data \<and>
        rest ! k =
          \<lparr>fr_index = applyPalette v data (quantize v data 256), fr_width = 400,
            fr_height = heightOf v, fr_palette = quantize v data 256,
            fr_delay = jsDiv 1000 (of_nat fps)\<rparr>"
    by blast
  have res: "createGifFromVideo v =
      Some (Inr \<lparr>blob_bytes = stream (finish g'), blob_type = ''image/gif''\<rparr>, finish g')"
    using assms(1,2,3) run(1) by (simp add: createGifFromVideo_def tf)
  have w: "written (finish g') = rest" "seeks (finish g') = map (\<lambda>i. jsDiv (of_nat i) 10) [0..<nat \<lfloor>x\<rfloor>]"
    using run(2,3) by (simp_all add: finish_def GIFEncoder_def fps_def)
  show ?thesis
    using res w run(4,5) stream_finish[of g']
    by (intro exI[of _ "finish g'"]) (simp add: fps_def)
qed

lemma heightOf_640_360: "heightOf (demoVideo d) = Fin 224"
proof -
  have "jsDiv 360 640 = Fin (9 / 16)"
    by (simp add: jsDiv_def toDouble_9_16)
  moreover have "jsMul (Fin (9 / 16)) 400 = Fin 225"
    by (simp add: jsMul_def toDouble_225)
  moreover have "jsSub (Fin 225) 1 = Fin 224"
    by (simp add: jsSub_def toDouble_224)
  ultimately show ?thesis
    by (simp add: heightOf_def demoVideo_def mathFloor_def rem2NonZero_def)
qed

lemma heightOf_640_368: "heightOf (demoVideo d\<lparr>videoHeight := 368\<rparr>) = Fin 228"
proof -
  have "jsDiv 368 640 = Fin (2589569785738035 / 4503599627370496)"
    by (simp add: jsDiv_def toDouble_23_40)
  moreover have "jsMul (Fin (2589569785738035 / 4503599627370496)) 400 =
      Fin (8092405580431359 / 35184372088832)"
    by (simp add: jsMul_def toDouble_h368)
  moreover have "\<lfloor>8092405580431359 / 35184372088832 :: rat\<rfloor> = 229"
    by (rule floor_unique) simp_all
  moreover have "jsSub (Fin 229) 1 = Fin 228"
    by (simp add: jsSub_def toDouble_228)
  ultimately show ?thesis
    by (simp add: heightOf_def demoVideo_def mathFloor_def rem2NonZero_def)
qed

lemma heightOf_width_0: "heightOf (demoVideo d\<lparr>videoWidth := 0\<rparr>) = PosInf"
  by (simp add: heightOf_def demoVideo_def jsDiv_def jsMul_def mathFloor_def rem2NonZero_def
        jsSub_def)

lemma createGifFromVideo_unbounded:
  assumes "gifLoaded v" and "loads v" and "hasContext v"
    and "duration v = PosInf"
    and "\<forall>j. \<exists>d. capture v j (jsDiv (of_nat j) (of_nat fps)) 400 (heightOf v) = Inr d"
  shows "createGifFromVideo v = None"
proof -
  have "totalFramesOf v = PosInf"
    using assms(4) by (simp add: totalFramesOf_def durationOr5_def jsMul_def mathFloor_def fps_def)
  with gifLoop_unbounded[OF assms(5), of 0 GIFEncoder] assms(1,2,3) show ?thesis
    by (simp add: createGifFromVideo_def)
qed

section \<open>The claims about the retrier and the poller\<close>

text \<open>
  C1, as stated, at a concrete run: the job is pending at entry and the first status
  check takes 400 seconds before it reports completion.  The poller returns 410 seconds
  after entry, later than the ceiling plus the poll interval.
\<close>

theorem pollForVideo_bound_counterexample:
  "pollForVideo slowCheck pendingOp w0 =
     (Inr doneOp, \<lparr>now = 410000, trace = [Sleep 10000, Call (GetVideosOperation pendingOp)]\<rparr>)
   \<and> \<not> 410000 \<le> now w0 + MAX_WAIT_TIME + 10000"
  by (simp add: pollForVideo_def pollLoop_step pollLoop_done_entry w0_def pendingOp_def
        doneOp_def slowCheck_def invoke_def sleep_def MAX_WAIT_TIME_def)

text \<open>
  C1, as amended.  Every invocation of the poller ends (the model is a total function).
  It never returns an operation whose done flag is false.  When no status check takes
  longer than \<open>L\<close> milliseconds, it ends within ceiling + poll interval + \<open>L\<close> of entry;
  with instantaneous status checks (\<open>L = 0\<close>) this is ceiling + poll interval.  It ends
  by returning a done operation, by propagating a non-transient status-check failure
  (the error of the last status check made, with a message the retrier's classification
  does not accept), or by failing with the timeout error, and then more than the 5 minute
  ceiling has passed since entry.  The three exits are stated for the runs in which no
  status check fails with a message that the retrier's classification accepts and the
  poller's own test does not; what the poller does on such a failure is left out here.
\<close>

theorem pollForVideo_exit_bounded:
  assumes "\<forall>k. fst (statusCheck k) \<le> L"
  shows "(\<forall>op' w'. pollForVideo statusCheck operation w = (Inr op', w') \<longrightarrow> op_done op')
         \<and> now (snd (pollForVideo statusCheck operation w)) \<le> now w + MAX_WAIT_TIME + 10000 + L
         \<and> ((\<forall>k e. snd (statusCheck k) = Inl e \<and> isRetryable (messageOf e)
                    \<longrightarrow> pollRetryable (messageOf e)) \<longrightarrow>
              (case pollForVideo statusCheck operation w of
                 (Inr op', w') \<Rightarrow> op_done op'
               | (Inl e, w') \<Rightarrow>
                   (e = timeoutError \<and> MAX_WAIT_TIME < now w' - now w) \<or>
                   (netCalls (trace w) < netCalls (trace w') \<and>
                    snd (statusCheck (netCalls (trace w') - 1)) = Inl e \<and>
                    \<not> isRetryable (messageOf e))))"
proof -
  obtain r w' where res: "pollLoop statusCheck (now w) operation w = (r, w')"
    by (metis surj_pair)
  have dn: "\<forall>op' w''. pollForVideo statusCheck operation w = (Inr op', w'') \<longrightarrow> op_done op'"
    using pollLoop_returns_done[of statusCheck "now w" operation w]
    by (simp add: pollForVideo_def)
  have time: "now (snd (pollForVideo statusCheck operation w)) \<le> now w + MAX_WAIT_TIME + 10000 + L"
    using pollLoop_time[OF assms, of w "now w" operation] by (simp add: pollForVideo_def)
  have exits: "case pollForVideo statusCheck operation w of
                 (Inr op', w') \<Rightarrow> op_done op'
               | (Inl e, w') \<Rightarrow>
                   (e = timeoutError \<and> MAX_WAIT_TIME < now w' - now w) \<or>
                   (netCalls (trace w) < netCalls (trace w') \<and>
                    snd (statusCheck (netCalls (trace w') - 1)) = Inl e \<and>
                    \<not> isRetryable (messageOf e))"
    if same: "\<forall>k e. snd (statusCheck k) = Inl e \<and> isRetryable (messageOf e)
                    \<longrightarrow> pollRetryable (messageOf e)"
  proof (cases r)
    case (Inr op')
    with res pollLoop_returns_done[of statusCheck "now w" operation w op'] show ?thesis
      by (simp add: pollForVideo_def)
  next
    case (Inl e)
    with res have "pollLoop statusCheck (now w) operation w = (Inl e, w')" by simp
    from pollLoop_error[OF this] same Inl res show ?thesis
      by (auto simp: pollForVideo_def)
  qed
  from dn time exits show ?thesis by blast
qed

theorem pollForVideo_exit_bounded_witness:
  "(\<forall>k. fst (flakyCheck k) \<le> 2000) \<and>
   snd (flakyCheck 0) = Inl unavailableError \<and>
   pollRetryable (messageOf unavailableError) \<and>
   (\<forall>k. snd (flakyCheck (Suc k)) = Inl notFoundError) \<and>
   \<not> isRetryable (messageOf notFoundError) \<and>
   pollForVideo flakyCheck pendingOp w0 =
     (Inl notFoundError,
      \<lparr>now = 24000,
       trace = [Sleep 10000, Call (GetVideosOperation pendingOp),
                Sleep 10000, Call (GetVideosOperation pendingOp)]\<rparr>) \<and>
   now (snd (pollForVideo flakyCheck pendingOp w0)) \<le> now w0 + MAX_WAIT_TIME + 10000 + 2000 \<and>
   snd (flakyCheck (netCalls (trace (snd (pollForVideo flakyCheck pendingOp w0))) - 1)) =
     Inl notFoundError"
proof -
  have h: "\<forall>k. fst (flakyCheck k) \<le> 2000"
    by (simp add: flakyCheck_def)
  have u: "pollRetryable (messageOf unavailableError)"
    by (simp add: pollRetryable_def messageOf_def unavailableError_def)
  have f: "snd (flakyCheck 0) = Inl unavailableError" "\<forall>k. snd (flakyCheck (Suc k)) = Inl notFoundError"
    by (simp_all add: flakyCheck_def)
  have same: "\<forall>k e. snd (flakyCheck k) = Inl e \<and> isRetryable (messageOf e)
                    \<longrightarrow> pollRetryable (messageOf e)"
    using u not_isRetryable_notFound by (auto simp: flakyCheck_def split: if_splits)
  have run: "pollForVideo flakyCheck pendingOp w0 =
     (Inl notFoundError,
      \<lparr>now = 24000,
       trace = [Sleep 10000, Call (GetVideosOperation pendingOp),
                Sleep 10000, Call (GetVideosOperation pendingOp)]\<rparr>)"
    using u not_isRetryable_notFound
    by (simp add: pollForVideo_def pollLoop_step w0_def pendingOp_def flakyCheck_def invoke_def
          sleep_def MAX_WAIT_TIME_def pollRetryable_def messageOf_def notFoundError_def)
  note t = pollForVideo_exit_bounded[OF h, where operation = pendingOp and w = w0]
  from t have bound:
    "now (snd (pollForVideo flakyCheck pendingOp w0)) \<le> now w0 + MAX_WAIT_TIME + 10000 + 2000"
    by blast
  from mp[OF t[THEN conjunct2, THEN conjunct2] same] have
    "case pollForVideo flakyCheck pendingOp w0 of
       (Inr op', w') \<Rightarrow> op_done op'
     | (Inl e, w') \<Rightarrow>
         (e = timeoutError \<and> MAX_WAIT_TIME < now w' - now w0) \<or>
         (netCalls (trace w0) < netCalls (trace w') \<and>
          snd (flakyCheck (netCalls (trace w') - 1)) = Inl e \<and>
          \<not> isRetryable (messageOf e))" .
  moreover have "notFoundError \<noteq> timeoutError"
    by (simp add: notFoundError_def timeoutError_def)
  ultimately have last:
    "snd (flakyCheck (netCalls (trace (snd (pollForVideo flakyCheck pendingOp w0))) - 1)) =
       Inl notFoundError"
    "\<not> isRetryable (messageOf notFoundError)"
    unfolding run by simp_all
  from h u f last run bound show ?thesis
    by blast
qed

text \<open>
  C2.  When the operation is rejected with a retryable message on each of its first
  \<open>retries\<close> attempts, the retrier makes exactly \<open>retries + 1\<close> attempts, waits
  \<open>baseDelay * 2 ^ k\<close> between attempt \<open>k + 1\<close> and attempt \<open>k + 2\<close> (that is, before
  the \<open>(k + 1)\<close>-th retry), and settles with whatever the last attempt gives.  With the
  default parameters the waits are 3000, 6000 and 12000 milliseconds.
\<close>

theorem withRetry_transient_attempts:
  assumes "\<forall>k<retries. \<exists>e. snd (script (netCalls (trace w) + k)) = Inl e \<and> isRetryable (messageOf e)"
  shows "trace (snd (withRetry (invoke req script) retries baseDelay w)) =
           trace w @ concat (map (\<lambda>k. [Call req, Sleep (baseDelay * 2 ^ k)]) [0..<retries]) @ [Call req]
         \<and> netCalls (trace (snd (withRetry (invoke req script) retries baseDelay w))) =
             netCalls (trace w) + (retries + 1)
         \<and> sleeps (trace (snd (withRetry (invoke req script) retries baseDelay w))) =
             sleeps (trace w) @ map (\<lambda>k. baseDelay * 2 ^ k) [0..<retries]
         \<and> fst (withRetry (invoke req script) retries baseDelay w) =
             snd (script (netCalls (trace w) + retries))
         \<and> (retries = 3 \<longrightarrow>
              sleeps (trace (snd (withRetryDefault (invoke req script) w))) =
                sleeps (trace w) @ [3000, 6000, 12000])"
proof -
  note t = withRetry_transient_trace[OF assms, of req baseDelay]
  have "trace (snd (withRetry (invoke req script) retries 3000 w)) =
          trace w @ concat (map (\<lambda>k. [Call req, Sleep (3000 * 2 ^ k)]) [0..<retries]) @ [Call req]"
    using withRetry_transient_trace[OF assms, of req 3000] by simp
  then have d: "retries = 3 \<longrightarrow>
      sleeps (trace (snd (withRetryDefault (invoke req script) w))) =
        sleeps (trace w) @ [3000, 6000, 12000]"
    by (auto simp: withRetryDefault_def upt_conv_Cons)
  show ?thesis
    using d by (simp add: t)
qed

theorem withRetry_transient_attempts_witness:
  "snd ((rateLimited :: operation script) (netCalls (trace w0) + 0)) = Inl rateLimitError \<and>
   snd ((rateLimited :: operation script) (netCalls (trace w0) + 1)) = Inl rateLimitError \<and>
   snd ((rateLimited :: operation script) (netCalls (trace w0) + 2)) = Inl rateLimitError \<and>
   isRetryable (messageOf rateLimitError) \<and>
   netCalls (trace (snd (withRetry (invoke (GetVideosOperation pendingOp) (rateLimited :: operation script)) 3 3000 w0))) = 4 \<and>
   sleeps (trace (snd (withRetryDefault (invoke (GetVideosOperation pendingOp) (rateLimited :: operation script)) w0))) =
     [3000, 6000, 12000]"
proof -
  have h: "\<forall>k<3. \<exists>e. snd ((rateLimited :: operation script) (netCalls (trace w0) + k)) = Inl e
               \<and> isRetryable (messageOf e)"
    using isRetryable_rateLimit by (simp add: rateLimited_def)
  from withRetry_transient_attempts[OF h, where req = "GetVideosOperation pendingOp" and baseDelay = 3000]
    isRetryable_rateLimit
  show ?thesis
    by (simp add: w0_def rateLimited_def)
qed

text \<open>
  C3, at a concrete run: the job is pending and the status check is rejected with a
  rate-limit message.  The retrier classifies this message as retryable, yet the poller
  does not keep waiting: it ends after that one status check and propagates the
  rejection.
\<close>

theorem pollForVideo_rate_limit_propagates:
  "isRetryable (messageOf rateLimitError) \<and>
   pollForVideo rateLimited pendingOp w0 =
     (Inl rateLimitError, \<lparr>now = 10000, trace = [Sleep 10000, Call (GetVideosOperation pendingOp)]\<rparr>)"
  by (simp add: isRetryable_rateLimit not_pollRetryable_rateLimit pollForVideo_def pollLoop_step
        w0_def pendingOp_def rateLimited_def invoke_def sleep_def MAX_WAIT_TIME_def)

text \<open>
  C6.  When an attempt is rejected with a message that is not retryable, the retrier
  settles with that same rejection and leaves the world as the attempt left it: no wait,
  no further attempt, whatever the number of retries left.  For an endpoint call this
  is one more call in the trace and no more waits.
\<close>

theorem withRetry_nonretryable_propagates:
  assumes "fn w = (Inl e, w1)" and "\<not> isRetryable (messageOf e)"
  shows "withRetry fn retries baseDelay w = (Inl e, w1)
         \<and> (fn = invoke req script \<longrightarrow>
              trace w1 = trace w @ [Call req] \<and> sleeps (trace w1) = sleeps (trace w))"
proof -
  have "fn = invoke req script \<longrightarrow> trace w1 = trace w @ [Call req]"
    using assms(1) by (auto simp: invoke_def)
  then show ?thesis
    using withRetry_nonretryable[where fn = fn and w = w, OF assms] by auto
qed

theorem withRetry_nonretryable_propagates_witness:
  "invoke (Fetch ''u'') (notFound :: fetchResponse script) w0 =
     (Inl notFoundError, \<lparr>now = 0, trace = [Call (Fetch ''u'')]\<rparr>) \<and>
   \<not> isRetryable (messageOf notFoundError) \<and>
   withRetry (invoke (Fetch ''u'') (notFound :: fetchResponse script)) 3 3000 w0 =
     (Inl notFoundError, \<lparr>now = 0, trace = [Call (Fetch ''u'')]\<rparr>)"
proof -
  have a: "invoke (Fetch ''u'') (notFound :: fetchResponse script) w0 =
      (Inl notFoundError, \<lparr>now = 0, trace = [Call (Fetch ''u'')]\<rparr>)"
    by (simp add: invoke_def notFound_def w0_def)
  from withRetry_nonretryable_propagates[where fn = "invoke (Fetch ''u'') notFound" and w = w0
      and retries = 3 and baseDelay = 3000 and req = "Fetch ''u''" and script = notFound,
      OF a not_isRetryable_notFound] a
    not_isRetryable_notFound
  show ?thesis by simp
qed

text \<open>
  C10.  When the done flag is already true at entry, the poller returns that very
  operation and leaves the world untouched: no status check, no wait, and the clock is
  not compared with the ceiling, whatever else the operation carries.
\<close>

theorem pollForVideo_done_at_entry:
  assumes "op_done operation"
  shows "pollForVideo statusCheck operation w = (Inr operation, w)"
  using assms by (simp add: pollForVideo_def pollLoop_done_entry)

theorem pollForVideo_done_at_entry_witness:
  "op_done failedOp \<and>
   pollForVideo slowCheck failedOp \<lparr>now = 999999999, trace = []\<rparr> =
     (Inr failedOp, \<lparr>now = 999999999, trace = []\<rparr>)"
proof -
  have h: "op_done failedOp"
    by (simp add: failedOp_def)
  from pollForVideo_done_at_entry[OF h, where statusCheck = slowCheck] h show ?thesis
    by simp
qed

section \<open>The claims about the generation client and the asset fetcher\<close>

text \<open>
  C4, as stated, at a concrete run: the download answers with HTTP status 404.  Two
  retries remain, yet the fetcher makes one request, waits for nothing and fails with
  the converted error: the failure is classified, and this one is not retryable.
\<close>

theorem fetchVideoBlob_not_always_retried:
  "fetchVideoBlob demoRemote ''https://example.com/video.mp4'' w0 =
     (Inl (Error (Some ''Failed to fetch video content: Not Found'')),
      \<lparr>now = 0, trace = [Call (Fetch ''https://example.com/video.mp4?key=k'')]\<rparr>)"
proof -
  have a: "fetchAttempt demoRemote ''https://example.com/video.mp4'' w0 =
     (Inl (Error (Some ''Failed to fetch video content: Not Found'')),
      \<lparr>now = 0, trace = [Call (Fetch ''https://example.com/video.mp4?key=k'')]\<rparr>)"
    by (simp add: fetchAttempt_def demoRemote_def notFoundResponse_def invoke_def w0_def)
  have b: "\<not> isRetryable (messageOf (Error (Some ''Failed to fetch video content: Not Found'')))"
    by (simp add: isRetryable_def messageOf_def)
  show ?thesis
    unfolding fetchVideoBlob_def
    by (rule withRetry_nonretryable[where fn = "fetchAttempt demoRemote ''https://example.com/video.mp4''", OF a b])
qed

text \<open>
  C4, as amended.  The download runs under the retrier with 2 retries and a base delay
  of 2000 milliseconds, and with the retrier's classification.  When the first two
  attempts fail (a rejected request, or a status that is not ok) with a retryable
  message, the fetcher makes three requests and waits 2000 and then 4000 milliseconds
  between them.  When an attempt fails with a message that is not retryable, the fetcher
  fails with that error at once.
\<close>

theorem fetchVideoBlob_classified_policy:
  assumes "newURL env uri (case API_KEY env of None \<Rightarrow> [] | Some k \<Rightarrow> k) = Inr url"
  shows "((\<forall>k<2. case snd (fetch env (netCalls (trace w) + k)) of
                    Inl e \<Rightarrow> isRetryable (messageOf e)
                  | Inr videoResponse \<Rightarrow>
                      \<not> resp_ok videoResponse \<and>
                      isRetryable (''Failed to fetch video content: '' @ resp_statusText videoResponse))
          \<longrightarrow> trace (snd (fetchVideoBlob env uri w)) =
                trace w @ [Call (Fetch url), Sleep 2000, Call (Fetch url), Sleep 4000, Call (Fetch url)])
         \<and> (\<forall>e w1. fetchAttempt env uri w = (Inl e, w1) \<and> \<not> isRetryable (messageOf e)
               \<longrightarrow> fetchVideoBlob env uri w = (Inl e, w1) \<and> trace w1 = trace w @ [Call (Fetch url)])"
proof (intro conjI impI allI)
  fix e w1
  assume h: "fetchAttempt env uri w = (Inl e, w1) \<and> \<not> isRetryable (messageOf e)"
  then show "fetchVideoBlob env uri w = (Inl e, w1)"
    unfolding fetchVideoBlob_def
    by (intro withRetry_nonretryable[where fn = "fetchAttempt env uri" and w = w]) simp_all
  have "trace (snd (fetchAttempt env uri w)) = trace w @ [Call (Fetch url)]"
    by (rule fetchAttempt_trace[OF assms])
  with h show "trace w1 = trace w @ [Call (Fetch url)]" by simp
next
  let ?f = "fetchAttempt env uri"
  assume h: "\<forall>k<2. case snd (fetch env (netCalls (trace w) + k)) of
                    Inl e \<Rightarrow> isRetryable (messageOf e)
                  | Inr videoResponse \<Rightarrow>
                      \<not> resp_ok videoResponse \<and>
                      isRetryable (''Failed to fetch video content: '' @ resp_statusText videoResponse)"
  note tr = fetchAttempt_trace[OF assms]
  let ?w1 = "sleep 2000 (snd (?f w))"
  let ?w2 = "sleep 4000 (snd (?f ?w1))"
  have h0: "case snd (fetch env (netCalls (trace w))) of
                    Inl e \<Rightarrow> isRetryable (messageOf e)
                  | Inr videoResponse \<Rightarrow>
                      \<not> resp_ok videoResponse \<and>
                      isRetryable (''Failed to fetch video content: '' @ resp_statusText videoResponse)"
    using spec[OF h, of 0] by simp
  have h1: "case snd (fetch env (netCalls (trace w) + 1)) of
                    Inl e \<Rightarrow> isRetryable (messageOf e)
                  | Inr videoResponse \<Rightarrow>
                      \<not> resp_ok videoResponse \<and>
                      isRetryable (''Failed to fetch video content: '' @ resp_statusText videoResponse)"
    using spec[OF h, of 1] by simp
  obtain e0 where e0: "fst (?f w) = Inl e0" "isRetryable (messageOf e0)"
    using fetchAttempt_retryable[OF assms h0] by blast
  have n1: "netCalls (trace ?w1) = netCalls (trace w) + 1"
    by (simp add: tr)
  obtain e1 where e1: "fst (?f ?w1) = Inl e1" "isRetryable (messageOf e1)"
    using fetchAttempt_retryable[OF assms, of ?w1] h1 unfolding n1 by blast
  have "withRetry ?f 2 2000 w = withRetry ?f 1 4000 ?w1"
    using withRetry_retry[where fn = ?f and w = w and retries = 2 and baseDelay = 2000, OF _ e0]
    by simp
  also have "\<dots> = withRetry ?f 0 8000 ?w2"
    using withRetry_retry[where fn = ?f and w = ?w1 and retries = 1 and baseDelay = 4000, OF _ e1]
    by simp
  also have "\<dots> = ?f ?w2"
    by (rule withRetry_0)
  finally show "trace (snd (fetchVideoBlob env uri w)) =
      trace w @ [Call (Fetch url), Sleep 2000, Call (Fetch url), Sleep 4000, Call (Fetch url)]"
    by (simp add: fetchVideoBlob_def tr)
qed

theorem fetchVideoBlob_classified_policy_witness:
  "newURL busyRemote ''https://example.com/video.mp4''
      (case API_KEY busyRemote of None \<Rightarrow> [] | Some k \<Rightarrow> k) =
     Inr ''https://example.com/video.mp4?key=k'' \<and>
   snd (fetch busyRemote (netCalls (trace w0) + 0)) = Inr unavailableResponse \<and>
   snd (fetch busyRemote (netCalls (trace w0) + 1)) = Inr unavailableResponse \<and>
   \<not> resp_ok unavailableResponse \<and>
   isRetryable (''Failed to fetch video content: '' @ resp_statusText unavailableResponse) \<and>
   trace (snd (fetchVideoBlob busyRemote ''https://example.com/video.mp4'' w0)) =
     [Call (Fetch ''https://example.com/video.mp4?key=k''), Sleep 2000,
      Call (Fetch ''https://example.com/video.mp4?key=k''), Sleep 4000,
      Call (Fetch ''https://example.com/video.mp4?key=k'')]"
proof -
  have u: "newURL busyRemote ''https://example.com/video.mp4''
      (case API_KEY busyRemote of None \<Rightarrow> [] | Some k \<Rightarrow> k) =
     Inr ''https://example.com/video.mp4?key=k''"
    by (simp add: busyRemote_def demoRemote_def)
  have r: "isRetryable (''Failed to fetch video content: '' @ resp_statusText unavailableResponse)"
    by (simp add: isRetryable_def unavailableResponse_def)
  have f: "snd (fetch busyRemote (netCalls (trace w0) + 0)) = Inr unavailableResponse"
    "snd (fetch busyRemote (netCalls (trace w0) + 1)) = Inr unavailableResponse"
    "\<not> resp_ok unavailableResponse"
    by (simp_all add: busyRemote_def demoRemote_def w0_def unavailableResponse_def)
  have h: "\<forall>k<2. case snd (fetch busyRemote (netCalls (trace w0) + k)) of
                    Inl e \<Rightarrow> isRetryable (messageOf e)
                  | Inr videoResponse \<Rightarrow>
                      \<not> resp_ok videoResponse \<and>
                      isRetryable (''Failed to fetch video content: '' @ resp_statusText videoResponse)"
    using r f(3) by (simp add: busyRemote_def demoRemote_def w0_def)
  from fetchVideoBlob_classified_policy[OF u, of w0] h
  have "trace (snd (fetchVideoBlob busyRemote ''https://example.com/video.mp4'' w0)) =
     trace w0 @ [Call (Fetch ''https://example.com/video.mp4?key=k''), Sleep 2000,
      Call (Fetch ''https://example.com/video.mp4?key=k''), Sleep 4000,
      Call (Fetch ''https://example.com/video.mp4?key=k'')]"
    by blast
  with u r f show ?thesis
    by (simp add: w0_def)
qed

text \<open>
  C5.  With empty seed-image bytes, video generation fails with the precondition error
  and leaves the world untouched: no submission, no status check, no download, no wait.
\<close>

theorem generateTextVideo_empty_image:
  "generateTextVideo env text [] imageMimeType promptStyle w =
     (Inl (Error (Some ''Image generation failed, cannot generate video.'')), w)
   \<and> callsOf (trace (snd (generateTextVideo env text [] imageMimeType promptStyle w))) =
       callsOf (trace w)"
  by (simp add: generateTextVideo_def)

text \<open>
  C7.  Every request that image generation sends is the same request, at least one is
  sent, and its parts are: the inline-data part and then the text part when a reference
  image is present (the string is given and not empty); one text part and nothing else
  when there is none.
\<close>

theorem generateTextImage_parts_order:
  "(\<exists>n>0. callsOf (trace (snd (generateTextImage ai str style typographyPrompt referenceImage w))) =
            callsOf (trace w) @
            replicate n
              (GenerateContent ''gemini-3-pro-image-preview''
                 (Parts (buildParts str style typographyPrompt referenceImage))
                 (ImageConfig ''16:9'' ''1K'')))
   \<and> (\<forall>ref. referenceImage = Some ref \<and> ref \<noteq> [] \<longrightarrow>
         (\<exists>d m t. buildParts str style typographyPrompt referenceImage = [InlineData d m, TextPart t]))
   \<and> (referenceImage = None \<or> referenceImage = Some [] \<longrightarrow>
         (\<exists>t. buildParts str style typographyPrompt referenceImage = [TextPart t]))"
proof (intro conjI allI impI)
  show "\<exists>n>0. callsOf (trace (snd (generateTextImage ai str style typographyPrompt referenceImage w))) =
            callsOf (trace w) @
            replicate n
              (GenerateContent ''gemini-3-pro-image-preview''
                 (Parts (buildParts str style typographyPrompt referenceImage))
                 (ImageConfig ''16:9'' ''1K''))"
    unfolding generateTextImage_def withRetryDefault_def imageRequest_def[symmetric]
    by (rule withRetry_calls) (rule imageAttempt_calls)
next
  fix ref
  assume "referenceImage = Some ref \<and> ref \<noteq> []"
  then show "\<exists>d m t. buildParts str style typographyPrompt referenceImage = [InlineData d m, TextPart t]"
    by (simp add: buildParts_def Let_def)
next
  assume "referenceImage = None \<or> referenceImage = Some []"
  then show "\<exists>t. buildParts str style typographyPrompt referenceImage = [TextPart t]"
    by (auto simp: buildParts_def)
qed

theorem generateTextImage_parts_order_witness:
  "(\<exists>d m t. buildParts ''HELLO'' ''neon'' None (Some ''data:image/png;base64,AAAA'') =
       [InlineData d m, TextPart t]) \<and>
   hd (buildParts ''HELLO'' ''neon'' None (Some ''data:image/png;base64,AAAA'')) =
     InlineData (Some ''AAAA'') ''image/png'' \<and>
   (\<exists>t. buildParts ''HELLO'' ''neon'' None None = [TextPart t])"
proof -
  note t = generateTextImage_parts_order[where str = "''HELLO''" and style = "''neon''"
      and typographyPrompt = None]
  have a: "\<exists>d m t. buildParts ''HELLO'' ''neon'' None (Some ''data:image/png;base64,AAAA'') =
       [InlineData d m, TextPart t]"
    using t[where referenceImage = "Some ''data:image/png;base64,AAAA''"] by simp
  have b: "\<exists>t. buildParts ''HELLO'' ''neon'' None None = [TextPart t]"
    using t[where referenceImage = None] by simp
  have c: "hd (buildParts ''HELLO'' ''neon'' None (Some ''data:image/png;base64,AAAA'')) =
     InlineData (Some ''AAAA'') ''image/png''"
    by (simp add: buildParts_def split_def)
  from a b c show ?thesis by blast
qed

text \<open>
  C8.  \<^verbatim>\<open>Math.random()\<close> returns a double from 0 up to, not including, 1, so at most
  \<open>1 - 2 ^ -53\<close>.  When the remote call is rejected, or its response has no text, or a
  text that is empty once trimmed (empty, or white space only), the suggestion settles
  with a value, not an error, and the value is one of the thirteen fallback styles.
\<close>

theorem generateStyleSuggestion_fallback:
  assumes "0 \<le> mathRandom ai" and "mathRandom ai \<le> 1 - 1 / 2 ^ 53"
    and "case snd (generateContent ai (netCalls (trace w))) of
           Inl e \<Rightarrow> True
         | Inr response \<Rightarrow>
             (case resp_text response of None \<Rightarrow> True | Some t \<Rightarrow> trim t = [])"
  shows "\<exists>s \<in> set styles. fst (generateStyleSuggestion ai str w) = Inr (Some s)"
proof -
  from getRandomStyle_member[OF assms(1,2)] obtain s where
    s: "s \<in> set styles" "getRandomStyle (mathRandom ai) = Some s" by blast
  have "fst (generateStyleSuggestion ai str w) = Inr (Some s)"
    using assms(3) s(2)
    by (auto simp: generateStyleSuggestion_def invoke_def split: sum.splits option.splits)
  with s(1) show ?thesis by blast
qed

theorem generateStyleSuggestion_fallback_witness:
  "0 \<le> mathRandom blankRemote \<and> mathRandom blankRemote \<le> 1 - 1 / 2 ^ 53 \<and>
   snd (generateContent blankRemote (netCalls (trace w0))) =
     Inr \<lparr>resp_text = Some [CHR 0xC2, CHR 0xA0, CHR 0x20], resp_parts = None\<rparr> \<and>
   trim [CHR 0xC2, CHR 0xA0, CHR 0x20] = [] \<and>
   (\<exists>s \<in> set styles. fst (generateStyleSuggestion blankRemote ''HELLO'' w0) = Inr (Some s)) \<and>
   fst (generateStyleSuggestion blankRemote ''HELLO'' w0) =
     Inr (Some ''displayed on a futuristic translucent holographic interface'') \<and>
   snd (generateContent demoRemote (netCalls (trace w0))) = Inl notFoundError \<and>
   (\<exists>s \<in> set styles. fst (generateStyleSuggestion demoRemote ''HELLO'' w0) = Inr (Some s))"
proof -
  have a: "0 \<le> mathRandom blankRemote" "mathRandom blankRemote \<le> 1 - 1 / 2 ^ 53"
    "0 \<le> mathRandom demoRemote" "mathRandom demoRemote \<le> 1 - 1 / 2 ^ 53"
    by (simp_all add: blankRemote_def demoRemote_def)
  have b: "snd (generateContent blankRemote (netCalls (trace w0))) =
     Inr \<lparr>resp_text = Some [CHR 0xC2, CHR 0xA0, CHR 0x20], resp_parts = None\<rparr>"
    by (simp add: blankRemote_def)
  have b': "snd (generateContent demoRemote (netCalls (trace w0))) = Inl notFoundError"
    by (simp add: demoRemote_def notFound_def)
  have c: "case snd (generateContent blankRemote (netCalls (trace w0))) of
           Inl e \<Rightarrow> True
         | Inr response \<Rightarrow>
             (case resp_text response of None \<Rightarrow> True | Some t \<Rightarrow> trim t = [])"
    by (simp add: b trim_blank)
  have c': "case snd (generateContent demoRemote (netCalls (trace w0))) of
           Inl e \<Rightarrow> True
         | Inr response \<Rightarrow>
             (case resp_text response of None \<Rightarrow> True | Some t \<Rightarrow> trim t = [])"
    by (simp add: b')
  have r: "mathRandom blankRemote = 1 / 2"
    by (simp add: blankRemote_def demoRemote_def)
  have d: "fst (generateStyleSuggestion blankRemote ''HELLO'' w0) =
     Inr (Some ''displayed on a futuristic translucent holographic interface'')"
    using b by (simp add: generateStyleSuggestion_def invoke_def trim_blank r getRandomStyle_half)
  from generateStyleSuggestion_fallback[OF a(1,2) c, where str = "''HELLO''"]
    generateStyleSuggestion_fallback[OF a(3,4) c', where str = "''HELLO''"]
    a(1,2) b b' d trim_blank
  show ?thesis by blast
qed

section \<open>The claim about the frame transcoder\<close>

text \<open>
  C9, as stated, at a concrete run: the video reports a duration of 0 seconds.  The
  claim gives \<open>floor (0 * 10) = 0\<close> frames; the transcoder takes the duration to be 5
  seconds and writes 50.
\<close>

theorem createGifFromVideo_zero_duration:
  "duration (demoVideo (Fin 0)) = Fin 0 \<and>
   createGifFromVideo (demoVideo (Fin 0)) \<noteq> None \<and>
   length (written (snd (the (createGifFromVideo (demoVideo (Fin 0)))))) = 50 \<and>
   mathFloor (jsMul (Fin 0) 10) = Fin 0"
proof -
  have h: "gifLoaded (demoVideo (Fin 0))" "loads (demoVideo (Fin 0))" "hasContext (demoVideo (Fin 0))"
    by (simp_all add: demoVideo_def)
  have x: "jsMul (durationOr5 (duration (demoVideo (Fin 0)))) 10 = Fin 50"
    by (simp add: demoVideo_def durationOr5_def jsMul_5_10)
  have c: "\<forall>i. int i < \<lfloor>50 :: rat\<rfloor> \<longrightarrow>
       (\<exists>data. capture (demoVideo (Fin 0)) i (jsDiv (of_nat i) 10) 400 (heightOf (demoVideo (Fin 0))) = Inr data)"
    by (simp add: demoVideo_def)
  from createGifFromVideo_run[OF h x c] obtain g where
    "createGifFromVideo (demoVideo (Fin 0)) =
       Some (Inr \<lparr>blob_bytes = stream g, blob_type = ''image/gif''\<rparr>, g)"
    "length (written g) = nat \<lfloor>50 :: rat\<rfloor>"
    by blast
  then have "createGifFromVideo (demoVideo (Fin 0)) \<noteq> None"
    "length (written (snd (the (createGifFromVideo (demoVideo (Fin 0)))))) = 50"
    by simp_all
  moreover have "duration (demoVideo (Fin 0)) = Fin 0"
    by (simp add: demoVideo_def)
  moreover have "mathFloor (jsMul (Fin 0) 10) = Fin 0"
    by (simp add: jsMul_def toDouble_def mathFloor_def)
  ultimately show ?thesis by blast
qed

text \<open>
  C9, as amended.  Take a run in which the encoder is loaded, the metadata loads, the
  canvas gives a context and every frame reads back.  Let \<open>d\<close> be the reported
  duration, or 5 when the reported duration is 0 or not a number, and let the double
  product \<open>d * 10\<close> be finite, \<open>x\<close>.  The transcoder settles with a blob.  It has written
  exactly \<open>floor x\<close> frames (50 for a reported duration of 5 seconds), frame \<open>i\<close> being
  the one read back after the seek to the double quotient \<open>i / 10\<close>; these timestamps
  are strictly increasing (for any count up to \<open>2 ^ 52\<close>, where consecutive quotients
  still differ).  The blob holds the encoder's finished bytes, is not empty, and declares
  \<^verbatim>\<open>image/gif\<close>.
\<close>

theorem createGifFromVideo_samples:
  assumes "gifLoaded v" and "loads v" and "hasContext v"
    and "jsMul (durationOr5 (duration v)) 10 = Fin x"
    and "\<forall>i. int i < \<lfloor>x\<rfloor> \<longrightarrow>
           (\<exists>data. capture v i (jsDiv (of_nat i) 10) 400 (heightOf v) = Inr data)"
  shows "\<exists>b g. createGifFromVideo v = Some (Inr b, g)
         \<and> length (written g) = nat \<lfloor>x\<rfloor>
         \<and> seeks g = map (\<lambda>i. jsDiv (of_nat i) 10) [0..<length (written g)]
         \<and> (length (written g) \<le> 2 ^ 52 \<longrightarrow> sorted_wrt jsLess (seeks g))
         \<and> (\<forall>i<length (written g). \<exists>data.
               capture v i (jsDiv (of_nat i) 10) 400 (heightOf v) = Inr data \<and>
               written g ! i =
                 \<lparr>fr_index = applyPalette v data (quantize v data 256), fr_width = 400,
                   fr_height = heightOf v, fr_palette = quantize v data 256,
                   fr_delay = Fin 100\<rparr>)
         \<and> blob_bytes b = stream g \<and> blob_bytes b \<noteq> []
         \<and> blob_type b = ''image/gif''
         \<and> (duration v = Fin 5 \<longrightarrow> length (written g) = 50)"
proof -
  from createGifFromVideo_run[OF assms] obtain g where g:
    "createGifFromVideo v = Some (Inr \<lparr>blob_bytes = stream g, blob_type = ''image/gif''\<rparr>, g)"
    "stream g \<noteq> []"
    "length (written g) = nat \<lfloor>x\<rfloor>"
    "seeks g = map (\<lambda>i. jsDiv (of_nat i) 10) [0..<nat \<lfloor>x\<rfloor>]"
    "\<forall>i<nat \<lfloor>x\<rfloor>. \<exists>data.
        capture v i (jsDiv (of_nat i) 10) 400 (heightOf v) = Inr data \<and>
        written g ! i =
          \<lparr>fr_index = applyPalette v data (quantize v data 256), fr_width = 400,
            fr_height = heightOf v, fr_palette = quantize v data 256,
            fr_delay = jsDiv 1000 10\<rparr>"
    by blast
  have five: "duration v = Fin 5 \<longrightarrow> length (written g) = 50"
  proof
    assume "duration v = Fin 5"
    then have "jsMul (durationOr5 (duration v)) 10 = Fin 50"
      by (simp add: durationOr5_def jsMul_5_10)
    with assms(4) have "x = 50" by simp
    then show "length (written g) = 50" by (simp add: g(3))
  qed
  have s: "length (written g) \<le> 2 ^ 52 \<longrightarrow> sorted_wrt jsLess (seeks g)"
    unfolding g(3) g(4) by (intro impI timestamps_increasing)
  let ?b = "\<lparr>blob_bytes = stream g, blob_type = ''image/gif''\<rparr>"
  have "createGifFromVideo v = Some (Inr ?b, g)
         \<and> length (written g) = nat \<lfloor>x\<rfloor>
         \<and> seeks g = map (\<lambda>i. jsDiv (of_nat i) 10) [0..<length (written g)]
         \<and> (length (written g) \<le> 2 ^ 52 \<longrightarrow> sorted_wrt jsLess (seeks g))
         \<and> (\<forall>i<length (written g). \<exists>data.
               capture v i (jsDiv (of_nat i) 10) 400 (heightOf v) = Inr data \<and>
               written g ! i =
                 \<lparr>fr_index = applyPalette v data (quantize v data 256), fr_width = 400,
                   fr_height = heightOf v, fr_palette = quantize v data 256,
                   fr_delay = Fin 100\<rparr>)
         \<and> blob_bytes ?b = stream g \<and> blob_bytes ?b \<noteq> []
         \<and> blob_type ?b = ''image/gif''
         \<and> (duration v = Fin 5 \<longrightarrow> length (written g) = 50)"
    using g(1) g(2) g(4) g(5) s five by (simp add: g(3) jsDiv_1000_10)
  then show ?thesis by blast
qed

theorem createGifFromVideo_samples_witness:
  "gifLoaded (demoVideo (Fin 5)) \<and> loads (demoVideo (Fin 5)) \<and> hasContext (demoVideo (Fin 5)) \<and>
   jsMul (durationOr5 (duration (demoVideo (Fin 5)))) 10 = Fin 50 \<and>
   (\<forall>i. \<exists>data. capture (demoVideo (Fin 5)) i (jsDiv (of_nat i) 10) 400 (heightOf (demoVideo (Fin 5))) = Inr data) \<and>
   (\<exists>b g. createGifFromVideo (demoVideo (Fin 5)) = Some (Inr b, g) \<and> length (written g) = 50 \<and>
      sorted_wrt jsLess (seeks g) \<and> blob_bytes b \<noteq> [] \<and> blob_type b = ''image/gif'') \<and>
   jsMul (durationOr5 (duration (demoVideo (Fin (3152519739159347 / 2 ^ 52))))) 10 = Fin 7 \<and>
   (\<exists>b g. createGifFromVideo (demoVideo (Fin (3152519739159347 / 2 ^ 52))) = Some (Inr b, g) \<and>
      length (written g) = 7)"
proof -
  let ?v = "demoVideo (Fin 5)"
  let ?u = "demoVideo (Fin (3152519739159347 / 2 ^ 52))"
  have h: "gifLoaded ?v" "loads ?v" "hasContext ?v" "gifLoaded ?u" "loads ?u" "hasContext ?u"
    by (simp_all add: demoVideo_def)
  have x: "jsMul (durationOr5 (duration ?v)) 10 = Fin 50"
    by (simp add: demoVideo_def durationOr5_def jsMul_5_10)
  have y: "jsMul (durationOr5 (duration ?u)) 10 = Fin 7"
    by (simp add: demoVideo_def durationOr5_def jsMul_07_10)
  have c: "\<forall>i. \<exists>data. capture ?v i (jsDiv (of_nat i) 10) 400 (heightOf ?v) = Inr data"
    "\<forall>i. \<exists>data. capture ?u i (jsDiv (of_nat i) 10) 400 (heightOf ?u) = Inr data"
    by (simp_all add: demoVideo_def)
  then have c': "\<forall>i. int i < \<lfloor>50 :: rat\<rfloor> \<longrightarrow>
      (\<exists>data. capture ?v i (jsDiv (of_nat i) 10) 400 (heightOf ?v) = Inr data)"
    "\<forall>i. int i < \<lfloor>7 :: rat\<rfloor> \<longrightarrow>
      (\<exists>data. capture ?u i (jsDiv (of_nat i) 10) 400 (heightOf ?u) = Inr data)"
    by blast+
  from createGifFromVideo_samples[OF h(1-3) x c'(1)] obtain b g where
    "createGifFromVideo ?v = Some (Inr b, g)" "length (written g) = 50"
    "sorted_wrt jsLess (seeks g)" "blob_bytes b \<noteq> []" "blob_type b = ''image/gif''"
    by auto
  then have p: "\<exists>b g. createGifFromVideo ?v = Some (Inr b, g) \<and> length (written g) = 50 \<and>
      sorted_wrt jsLess (seeks g) \<and> blob_bytes b \<noteq> [] \<and> blob_type b = ''image/gif''"
    by blast
  from createGifFromVideo_samples[OF h(4-6) y c'(2)] obtain b' g' where
    "createGifFromVideo ?u = Some (Inr b', g')" "length (written g') = 7"
    by auto
  then have q: "\<exists>b g. createGifFromVideo ?u = Some (Inr b, g) \<and> length (written g) = 7"
    by blast
  from h(1-3) x y c(1) p q show ?thesis by blast
qed

end
